theory Spec2Isabelle
  imports Complex_Main "HOL-Library.AList" "HOL-Library.Multiset"
begin

section \<open>Data model\<close>

text \<open>
  A register descriptor is a Python dict literal of \<^verbatim>\<open>energymeter.py\<close> with the keys
  \<^verbatim>\<open>name\<close>, \<^verbatim>\<open>start\<close>, \<^verbatim>\<open>length\<close>, \<^verbatim>\<open>signed\<close>, \<^verbatim>\<open>decimals\<close> and, optionally,
  \<^verbatim>\<open>is_float\<close>. The code reads the last key with \<^verbatim>\<open>register.get('is_float')\<close>, so a
  missing key is falsy: the field \<open>is_float\<close> is \<open>False\<close> for it. Python's integers are
  unbounded, so addresses, lengths and scales are \<open>int\<close>.
\<close>

record register =
  name :: string
  start :: int
  length_r :: int
  signed :: bool
  decimals :: int
  is_float :: bool

text \<open>The exceptions that the modelled code can raise.\<close>

datatype py_error =
    IndexError | TypeError | ValueError | StructError | IOError | OverflowError
  | ZeroDivisionError

text \<open>
  Python values produced by the codecs. A float coming out of \<^verbatim>\<open>struct.unpack\<close> is kept
  as its IEEE-754 bit pattern (\<open>Single\<close> for \<^verbatim>\<open>'>f'\<close>, \<open>Double\<close> for \<^verbatim>\<open>'>d'\<close>).
  The expression \<^verbatim>\<open>float(value) / 10 ** decimals\<close> is kept symbolically as
  \<open>Scaled value decimals\<close>, and \<^verbatim>\<open>value / 10 ** decimals\<close> on an int \<open>value\<close> as
  \<open>Quot value decimals\<close>: the rounding of the floating-point quotient is not modelled,
  the exceptions of the two expressions are (\<open>py_scale\<close> and \<open>py_quot\<close> below).
  \<open>Plain value\<close> is a number returned as it is. \<open>OneIfZero v\<close> is the int 1 if the
  value \<open>v\<close> compares equal to zero, and \<open>v\<close> otherwise.
\<close>

datatype pyfloat = Single int | Double int

datatype pynum = PyInt int | PyFloat pyfloat

datatype decoded =
    PyNone | Plain pynum | Scaled pynum int | Quot int int | OneIfZero decoded

section \<open>The \<^verbatim>\<open>struct\<close> module, big-endian standard sizes\<close>

text \<open>
  Format characters after \<^verbatim>\<open>'>'\<close>: \<open>U8\<close> is \<^verbatim>\<open>B\<close>, \<open>I8\<close> is \<^verbatim>\<open>b\<close>, \<open>U16\<close> is \<^verbatim>\<open>H\<close>,
  \<open>I16\<close> is \<^verbatim>\<open>h\<close>, \<open>U32\<close> is \<^verbatim>\<open>L\<close>, \<open>I32\<close> is \<^verbatim>\<open>l\<close>, \<open>U64\<close> is \<^verbatim>\<open>Q\<close>, \<open>I64\<close> is
  \<^verbatim>\<open>q\<close>, \<open>F32\<close> is \<^verbatim>\<open>f\<close> and \<open>F64\<close> is \<^verbatim>\<open>d\<close>. A byte string is a list of ints in
  \<open>0..255\<close>.
\<close>

datatype fmt = U8 | I8 | U16 | I16 | U32 | I32 | U64 | I64 | F32 | F64

fun calcsize1 :: "fmt \<Rightarrow> nat" where
  "calcsize1 U8 = 1"
| "calcsize1 I8 = 1"
| "calcsize1 U16 = 2"
| "calcsize1 I16 = 2"
| "calcsize1 U32 = 4"
| "calcsize1 I32 = 4"
| "calcsize1 U64 = 8"
| "calcsize1 I64 = 8"
| "calcsize1 F32 = 4"
| "calcsize1 F64 = 8"

definition calcsize :: "fmt list \<Rightarrow> nat" where
  "calcsize cs = sum_list (map calcsize1 cs)"

definition be_int :: "int list \<Rightarrow> int" where
  "be_int bs = foldl (\<lambda>acc b. acc * 256 + b) 0 bs"

fun be_bytes :: "nat \<Rightarrow> int \<Rightarrow> int list" where
  "be_bytes 0 v = []"
| "be_bytes (Suc n) v = be_bytes n (v div 256) @ [v mod 256]"

definition twos_complement :: "nat \<Rightarrow> int \<Rightarrow> int" where
  "twos_complement bits raw = (if raw \<ge> 2 ^ (bits - 1) then raw - 2 ^ bits else raw)"

text \<open>
  Packing one integer argument: out of the range of the format it is \<^verbatim>\<open>struct.error\<close>.
  The program packs integers only, with \<^verbatim>\<open>H\<close>, \<^verbatim>\<open>B\<close> and \<^verbatim>\<open>L\<close>.
\<close>

fun pack1 :: "fmt \<Rightarrow> int \<Rightarrow> py_error + int list" where
  "pack1 U8 v = (if 0 \<le> v \<and> v < 2 ^ 8 then Inr (be_bytes 1 v) else Inl StructError)"
| "pack1 U16 v = (if 0 \<le> v \<and> v < 2 ^ 16 then Inr (be_bytes 2 v) else Inl StructError)"
| "pack1 U32 v = (if 0 \<le> v \<and> v < 2 ^ 32 then Inr (be_bytes 4 v) else Inl StructError)"
| "pack1 U64 v = (if 0 \<le> v \<and> v < 2 ^ 64 then Inr (be_bytes 8 v) else Inl StructError)"
| "pack1 I8 v = (if - (2 ^ 7) \<le> v \<and> v < 2 ^ 7 then Inr (be_bytes 1 (v mod 2 ^ 8)) else Inl StructError)"
| "pack1 I16 v = (if - (2 ^ 15) \<le> v \<and> v < 2 ^ 15 then Inr (be_bytes 2 (v mod 2 ^ 16)) else Inl StructError)"
| "pack1 I32 v = (if - (2 ^ 31) \<le> v \<and> v < 2 ^ 31 then Inr (be_bytes 4 (v mod 2 ^ 32)) else Inl StructError)"
| "pack1 I64 v = (if - (2 ^ 63) \<le> v \<and> v < 2 ^ 63 then Inr (be_bytes 8 (v mod 2 ^ 64)) else Inl StructError)"
| "pack1 F32 v = Inl StructError"
| "pack1 F64 v = Inl StructError"

text \<open>\<^verbatim>\<open>struct.pack(fmt, *values)\<close>: one argument per format character.\<close>

fun struct_pack :: "fmt list \<Rightarrow> int list \<Rightarrow> py_error + int list" where
  "struct_pack [] [] = Inr []"
| "struct_pack (c # cs) (v # vs) =
     (case pack1 c v of
        Inl e \<Rightarrow> Inl e
      | Inr b \<Rightarrow> (case struct_pack cs vs of Inl e \<Rightarrow> Inl e | Inr bs \<Rightarrow> Inr (b @ bs)))"
| "struct_pack [] (v # vs) = Inl StructError"
| "struct_pack (c # cs) [] = Inl StructError"

fun unpack1 :: "fmt \<Rightarrow> int list \<Rightarrow> pynum" where
  "unpack1 U8 bs = PyInt (be_int bs)"
| "unpack1 U16 bs = PyInt (be_int bs)"
| "unpack1 U32 bs = PyInt (be_int bs)"
| "unpack1 U64 bs = PyInt (be_int bs)"
| "unpack1 I8 bs = PyInt (twos_complement 8 (be_int bs))"
| "unpack1 I16 bs = PyInt (twos_complement 16 (be_int bs))"
| "unpack1 I32 bs = PyInt (twos_complement 32 (be_int bs))"
| "unpack1 I64 bs = PyInt (twos_complement 64 (be_int bs))"
| "unpack1 F32 bs = PyFloat (Single (be_int bs))"
| "unpack1 F64 bs = PyFloat (Double (be_int bs))"

fun unpack_fields :: "fmt list \<Rightarrow> int list \<Rightarrow> pynum list" where
  "unpack_fields [] bs = []"
| "unpack_fields (c # cs) bs =
     unpack1 c (take (calcsize1 c) bs) # unpack_fields cs (drop (calcsize1 c) bs)"

text \<open>
  \<^verbatim>\<open>struct.unpack(fmt, buffer)\<close>: the buffer must have exactly the size of the format;
  the result is a tuple with one value per format character.
\<close>

definition struct_unpack :: "fmt list \<Rightarrow> int list \<Rightarrow> py_error + pynum list" where
  "struct_unpack cs bs =
     (if length bs = calcsize cs then Inr (unpack_fields cs bs) else Inl StructError)"

text \<open>\<^verbatim>\<open>t[0]\<close> on a tuple or list.\<close>

definition item0 :: "'a list \<Rightarrow> py_error + 'a" where
  "item0 xs = (case xs of [] \<Rightarrow> Inl IndexError | x # _ \<Rightarrow> Inr x)"

text \<open>
  \<^verbatim>\<open>bytes(values)\<close>: a bytes object is returned as it is; a list of ints must hold
  values in \<open>0..255\<close>, otherwise \<^verbatim>\<open>ValueError\<close>.
\<close>

definition py_bytes :: "int list \<Rightarrow> py_error + int list" where
  "py_bytes values =
     (if list_all (\<lambda>v. 0 \<le> v \<and> v < 256) values then Inr values else Inl ValueError)"

subsection \<open>The value of an IEEE-754 bit pattern\<close>

text \<open>
  The exact rational value of a finite binary floating-point pattern with \<open>ebits\<close>
  exponent bits and \<open>mbits\<close> fraction bits; \<open>None\<close> for infinities and NaNs. It is
  needed where the code compares an unpacked float with the integer null sentinels:
  Python compares a float and an int by their exact values.
\<close>

definition ieee_value :: "nat \<Rightarrow> nat \<Rightarrow> int \<Rightarrow> rat option" where
  "ieee_value ebits mbits b =
     (let s = (b div 2 ^ (ebits + mbits)) mod 2;
          e = nat ((b div 2 ^ mbits) mod 2 ^ ebits);
          m = b mod 2 ^ mbits;
          bias = 2 ^ (ebits - 1) - 1 + mbits;
          sig = (if e = 0 then m else 2 ^ mbits + m);
          ex = (if e = 0 then 1 else e);
          mag = (if ex \<ge> bias then of_int (sig * 2 ^ (ex - bias))
                 else of_int sig / of_int (2 ^ (bias - ex)))
      in if e = 2 ^ ebits - 1 then None
         else Some (if s = 1 then - mag else mag))"

fun float_value :: "pyfloat \<Rightarrow> rat option" where
  "float_value (Single b) = ieee_value 8 23 b"
| "float_value (Double b) = ieee_value 11 52 b"

text \<open>\<^verbatim>\<open>value in NULLS\<close>, where \<open>NULLS\<close> is a list of ints.\<close>

fun in_nulls :: "int list \<Rightarrow> pynum \<Rightarrow> bool" where
  "in_nulls nulls (PyInt v) = (v \<in> set nulls)"
| "in_nulls nulls (PyFloat f) = list_ex (\<lambda>n. float_value f = Some (of_int n)) nulls"

section \<open>Null sentinels of the device classes\<close>

definition ABBMeter_NULLS :: "int list" where
  "ABBMeter_NULLS = map (\<lambda>n. 2 ^ n - 1) [64, 63, 32, 31, 16, 15 :: nat]"

text \<open>\<^verbatim>\<open>SMAMeter.NULLS\<close> and \<^verbatim>\<open>MulticubeMeter.NULLS\<close> are the same list.\<close>

definition SMAMeter_NULLS :: "int list" where
  "SMAMeter_NULLS = [2 ^ 16 - 1, 2 ^ 15 - 1, 2 ^ 15, - (2 ^ 15)]"

section \<open>The codecs\<close>

text \<open>
  \<^verbatim>\<open>float(value) / 10 ** decimals\<close>. For \<open>decimals \<ge> 0\<close> the divisor is the int
  \<open>10 ^ decimals\<close>, which the division converts to a float: from \<open>10 ^ 309\<close> on that
  conversion raises \<^verbatim>\<open>OverflowError\<close>. For \<open>decimals < 0\<close> the divisor is the float
  power, which is \<open>0.0\<close> from \<open>10 ** -324\<close> down: the division raises
  \<^verbatim>\<open>ZeroDivisionError\<close>. The values come out of \<^verbatim>\<open>struct.unpack\<close> and have at most
  64 bits, so \<^verbatim>\<open>float(value)\<close> itself never raises.
\<close>

definition py_scale :: "pynum \<Rightarrow> int \<Rightarrow> py_error + decoded" where
  "py_scale v d =
     (if d \<ge> 309 then Inl OverflowError
      else if d \<le> - 324 then Inl ZeroDivisionError
      else Inr (Scaled v d))"

text \<open>
  \<^verbatim>\<open>value / 10 ** decimals\<close> on an int of at most 64 bits. The true division of two
  ints does not convert the divisor, so a large \<open>decimals\<close> does not overflow; a float
  divisor that is \<open>0.0\<close> raises as above.
\<close>

definition py_quot :: "int \<Rightarrow> int \<Rightarrow> py_error + decoded" where
  "py_quot v d = (if d \<le> - 324 then Inl ZeroDivisionError else Inr (Quot v d))"

text \<open>
  The common tail of both \<^verbatim>\<open>_convert_value\<close> methods:
  \<^verbatim>\<open>if value in NULLS: return None else: return float(value) / 10 ** decimals\<close>.
\<close>

definition null_or_scaled :: "int list \<Rightarrow> pynum \<Rightarrow> int \<Rightarrow> py_error + decoded" where
  "null_or_scaled nulls v d = (if in_nulls nulls v then Inr PyNone else py_scale v d)"

text \<open>
  \<^verbatim>\<open>ModbusRTUMeter._convert_value\<close>. The argument \<open>values\<close> is a list of register words.
  The sentinel list is \<^verbatim>\<open>ABBMeter.NULLS\<close> for every subclass: the method names that
  class, not \<^verbatim>\<open>self\<close>.
\<close>

definition RTU_formatcode_i :: "nat \<Rightarrow> fmt list" where
  "RTU_formatcode_i n =
     (if n = 1 then [U16] else []) @ (if n = 2 then [U16, U16] else [])
       @ (if n = 4 then [U16, U16, U16, U16] else [])"

definition RTU_formatcode_o :: "nat \<Rightarrow> bool \<Rightarrow> fmt list" where
  "RTU_formatcode_o n sg =
     (if n = 1 then [if sg then I16 else U16] else [])
       @ (if n = 2 then [if sg then I32 else U32] else [])
       @ (if n = 4 then [if sg then I64 else U64] else [])"

definition RTU_convert_value :: "int list \<Rightarrow> bool \<Rightarrow> int \<Rightarrow> bool \<Rightarrow> py_error + decoded" where
  "RTU_convert_value values sg number_of_decimals isfloat =
     (if isfloat \<and> length values = 2 then
        (case struct_pack [U16, U16] values of
           Inl e \<Rightarrow> Inl e
         | Inr bytestring \<Rightarrow>
             (case struct_unpack [F32] bytestring of
                Inl e \<Rightarrow> Inl e
              | Inr t \<Rightarrow> (case item0 t of
                            Inl e \<Rightarrow> Inl e
                          | Inr value \<Rightarrow> Inr (Plain value))))
      else if isfloat \<and> length values = 4 then
        (case struct_pack [U16, U16, U16, U16] values of
           Inl e \<Rightarrow> Inl e
         | Inr bytestring \<Rightarrow>
             (case struct_unpack [F64] bytestring of
                Inl e \<Rightarrow> Inl e
              | Inr t \<Rightarrow> (case item0 t of
                            Inl e \<Rightarrow> Inl e
                          | Inr value \<Rightarrow> Inr (Plain value))))
      else
        (let number_of_registers = length values in
         case struct_pack (RTU_formatcode_i number_of_registers) values of
           Inl e \<Rightarrow> Inl e
         | Inr bytestring \<Rightarrow>
             (case struct_unpack (RTU_formatcode_o number_of_registers sg) bytestring of
                Inl e \<Rightarrow> Inl e
              | Inr t \<Rightarrow> (case item0 t of
                            Inl e \<Rightarrow> Inl e
                          | Inr value \<Rightarrow>
                              null_or_scaled ABBMeter_NULLS value number_of_decimals))))"

text \<open>
  \<^verbatim>\<open>ModbusTCPMeter._convert_value\<close>. The argument \<open>values\<close> is the byte span of the
  register (or a span of the zero-filled list); the format is chosen by the number of
  bytes, and \<open>NULLS\<close> is \<^verbatim>\<open>self.NULLS\<close>.
\<close>

definition TCP_formatcode_o :: "nat \<Rightarrow> bool \<Rightarrow> bool \<Rightarrow> fmt list" where
  "TCP_formatcode_o numberOfBytes sg isfloat =
     (if isfloat then [F32]
      else if numberOfBytes = 1 then [if sg then I8 else U8]
      else if numberOfBytes = 2 then [if sg then I16 else U16]
      else if numberOfBytes = 4 then [if sg then I32 else U32]
      else [])"

definition TCP_convert_value ::
  "int list \<Rightarrow> int list \<Rightarrow> bool \<Rightarrow> int \<Rightarrow> bool \<Rightarrow> py_error + decoded" where
  "TCP_convert_value nulls values sg decimals' isfloat =
     (let numberOfBytes = length values in
      case py_bytes values of
        Inl e \<Rightarrow> Inl e
      | Inr bs \<Rightarrow>
          (case struct_unpack (TCP_formatcode_o numberOfBytes sg isfloat) bs of
             Inl e \<Rightarrow> Inl e
           | Inr t \<Rightarrow> (case item0 t of
                         Inl e \<Rightarrow> Inl e
                       | Inr value \<Rightarrow> null_or_scaled nulls value decimals')))"

section \<open>The decoding rules in the words of the specification\<close>

text \<open>
  The specification speaks of register words: a raw value is a list of 16-bit words,
  packed big-endian. On the TCP wire each word travels as two bytes, high byte first.
\<close>

definition word_ok :: "int \<Rightarrow> bool" where
  "word_ok w = (0 \<le> w \<and> w < 2 ^ 16)"

definition words_be :: "int list \<Rightarrow> int" where
  "words_be ws = foldl (\<lambda>acc w. acc * 65536 + w) 0 ws"

definition wire_bytes :: "int list \<Rightarrow> int list" where
  "wire_bytes ws = concat (map (be_bytes 2) ws)"

text \<open>
  Rules 2 to 4 of the codec as the specification words them: the words packed into an
  integer of \<open>16 \<times> wordLength\<close> bits, read as two's complement when the register is
  signed; a sentinel gives the absent value, anything else the quotient by
  \<open>10 ^ decimals\<close>.
\<close>

definition spec_nonfloat_decode :: "int set \<Rightarrow> int list \<Rightarrow> bool \<Rightarrow> int \<Rightarrow> decoded" where
  "spec_nonfloat_decode sentinels ws sg d =
     (let raw = words_be ws;
          v = (if sg then twos_complement (16 * length ws) raw else raw)
      in if v \<in> sentinels then PyNone else Scaled (PyInt v) d)"

text \<open>
  Rule 1 as the specification words it: two words are a single-precision pattern, four
  words a double-precision pattern, returned with no scaling and no sentinel check.
\<close>

definition spec_float_decode :: "int list \<Rightarrow> decoded" where
  "spec_float_decode ws =
     Plain (PyFloat (if length ws = 2 then Single (words_be ws) else Double (words_be ws)))"

text \<open>
  The scales for which the quotient \<open>rawInteger / 10 ^ decimals\<close> exists as a float:
  every catalog of the source has its \<open>decimals\<close> between \<open>-4\<close> and \<open>3\<close>.
\<close>

definition decimals_ok :: "int \<Rightarrow> bool" where
  "decimals_ok d = (- 324 < d \<and> d < 309)"

section \<open>Python built-ins used by the read engine\<close>

text \<open>\<^verbatim>\<open>min(xs)\<close> and \<^verbatim>\<open>max(xs)\<close> raise \<^verbatim>\<open>ValueError\<close> on an empty list.\<close>

definition py_min :: "int list \<Rightarrow> py_error + int" where
  "py_min xs = (case xs of [] \<Rightarrow> Inl ValueError | x # rest \<Rightarrow> Inr (fold min rest x))"

definition py_max :: "int list \<Rightarrow> py_error + int" where
  "py_max xs = (case xs of [] \<Rightarrow> Inl ValueError | x # rest \<Rightarrow> Inr (fold max rest x))"

text \<open>
  \<^verbatim>\<open>xs[i:j]\<close>: a negative index counts from the end, and both bounds are clamped to the
  list, so a slice never raises.
\<close>

definition py_index :: "nat \<Rightarrow> int \<Rightarrow> nat" where
  "py_index n k = (if k < 0 then nat (max (k + int n) 0) else min (nat k) n)"

definition py_slice :: "'a list \<Rightarrow> int \<Rightarrow> int \<Rightarrow> 'a list" where
  "py_slice xs i j = drop (py_index (length xs) i) (take (py_index (length xs) j) xs)"

text \<open>
  A result dict is an association list in insertion order. \<^verbatim>\<open>d[k] = v\<close> replaces the
  value of a present key where it stands and appends a new key, which is \<open>AList.update\<close>;
  \<^verbatim>\<open>d.update(other)\<close> does so for every item of \<open>other\<close> in order.
\<close>

type_synonym results = "(string \<times> decoded) list"

definition dict_update :: "results \<Rightarrow> results \<Rightarrow> results" where
  "dict_update d other = fold (\<lambda>kv. AList.update (fst kv) (snd kv)) other d"

section \<open>The serial transport\<close>

text \<open>
  The serial driver (\<^verbatim>\<open>minimalmodbus.Instrument\<close>, \<^verbatim>\<open>tinysbus.Instrument\<close>) is an
  external collaborator. Every call to it is a request, and the requests made so far
  are the transport log; the driver's answer may depend on that log and is either an
  exception or a value. The engine uses four of its methods.
\<close>

datatype request =
    Read_registers int int
  | Read_register int int bool
  | Read_float int int
  | Read_long int bool

record instrument =
  read_registers :: "request list \<Rightarrow> int \<Rightarrow> int \<Rightarrow> py_error + int list"
  read_register :: "request list \<Rightarrow> int \<Rightarrow> int \<Rightarrow> bool \<Rightarrow> py_error + decoded"
  read_float :: "request list \<Rightarrow> int \<Rightarrow> int \<Rightarrow> py_error + pyfloat"
  read_long :: "request list \<Rightarrow> int \<Rightarrow> bool \<Rightarrow> py_error + int"

subsection \<open>\<^verbatim>\<open>ModbusRTUMeter\<close>\<close>

fun RTU_interpret_loop ::
  "int list \<Rightarrow> int \<Rightarrow> register list \<Rightarrow> results \<Rightarrow> py_error + results" where
  "RTU_interpret_loop data first_reg [] results = Inr results"
| "RTU_interpret_loop data first_reg (register # rest) results =
     (let start' = start register - first_reg;
          end' = start' + length_r register;
          values = py_slice data start' end'
      in case RTU_convert_value values (signed register) (decimals register) (is_float register) of
           Inl e \<Rightarrow> Inl e
         | Inr v \<Rightarrow>
             RTU_interpret_loop data first_reg rest (AList.update (name register) v results))"

definition RTU_interpret_result :: "int list \<Rightarrow> register list \<Rightarrow> py_error + results" where
  "RTU_interpret_result data registers =
     (case py_min (map start registers) of
        Inl e \<Rightarrow> Inl e
      | Inr first_reg \<Rightarrow> RTU_interpret_loop data first_reg registers [])"

definition RTU_read_multiple ::
  "instrument \<Rightarrow> register list \<Rightarrow> request list \<Rightarrow> (py_error + results) \<times> request list" where
  "RTU_read_multiple ins registers reqs =
     (case py_min (map start registers) of
        Inl e \<Rightarrow> (Inl e, reqs)
      | Inr first_reg \<Rightarrow>
          (case py_max (map (\<lambda>r. start r + length_r r) registers) of
             Inl e \<Rightarrow> (Inl e, reqs)
           | Inr m \<Rightarrow>
               (let num_regs = m - first_reg;
                    reqs' = reqs @ [Read_registers first_reg num_regs]
                in case read_registers ins reqs first_reg num_regs of
                     Inl e \<Rightarrow> (Inl e, reqs')
                   | Inr values \<Rightarrow> (RTU_interpret_result values registers, reqs'))))"

text \<open>
  \<^verbatim>\<open>_batch_read\<close> is the same text in \<^verbatim>\<open>ModbusRTUMeter\<close> and in \<^verbatim>\<open>SaiaMeter\<close> but for
  the constant (125 and 10) and the class whose \<^verbatim>\<open>_read_multiple\<close> it calls; both are
  parameters here. The loop carries \<open>start_reg\<close>, \<open>batch\<close> and \<open>results\<close>.
\<close>

fun batch_read_loop ::
  "int \<Rightarrow> (register list \<Rightarrow> 'io \<Rightarrow> (py_error + results) \<times> 'io) \<Rightarrow> register list \<Rightarrow> int
     \<Rightarrow> register list \<Rightarrow> results \<Rightarrow> 'io \<Rightarrow> (py_error + results) \<times> 'io" where
  "batch_read_loop cap read_multiple [] start_reg batch results io =
     (case read_multiple batch io of
        (Inl e, io') \<Rightarrow> (Inl e, io')
      | (Inr m, io') \<Rightarrow> (Inr (dict_update results m), io'))"
| "batch_read_loop cap read_multiple (register # rest) start_reg batch results io =
     (if start register + length_r register - start_reg \<le> cap
      then batch_read_loop cap read_multiple rest start_reg (batch @ [register]) results io
      else (case read_multiple batch io of
              (Inl e, io') \<Rightarrow> (Inl e, io')
            | (Inr m, io') \<Rightarrow>
                batch_read_loop cap read_multiple rest (start register) [register]
                  (dict_update results m) io'))"

definition batch_read ::
  "int \<Rightarrow> (register list \<Rightarrow> 'io \<Rightarrow> (py_error + results) \<times> 'io) \<Rightarrow> register list
     \<Rightarrow> 'io \<Rightarrow> (py_error + results) \<times> 'io" where
  "batch_read cap read_multiple registers io =
     (case registers of
        [] \<Rightarrow> (Inl IndexError, io)
      | r0 # _ \<Rightarrow> batch_read_loop cap read_multiple registers (start r0) [] [] io)"

definition RTU_batch_read ::
  "instrument \<Rightarrow> register list \<Rightarrow> request list \<Rightarrow> (py_error + results) \<times> request list" where
  "RTU_batch_read ins = batch_read 125 (RTU_read_multiple ins)"

text \<open>
  \<^verbatim>\<open>_read_single\<close>: the typed helpers of the driver for one and two words, a raw read
  and the codec for four words, and \<^verbatim>\<open>None\<close> for any other length.
\<close>

datatype outcome = RDict results | RValue decoded | RStr string | RNone

definition RTU_read_single ::
  "instrument \<Rightarrow> register \<Rightarrow> request list \<Rightarrow> (py_error + outcome) \<times> request list" where
  "RTU_read_single ins register reqs =
     (if length_r register = 1 then
        (case read_register ins reqs (start register) (decimals register) (signed register) of
           Inl e \<Rightarrow> Inl e
         | Inr v \<Rightarrow> Inr (RValue v),
         reqs @ [Read_register (start register) (decimals register) (signed register)])
      else if length_r register = 2 then
        (if is_float register then
           (case read_float ins reqs (start register) 2 of
              Inl e \<Rightarrow> Inl e
            | Inr f \<Rightarrow> Inr (RValue (Plain (PyFloat f))),
            reqs @ [Read_float (start register) 2])
         else
           (case read_long ins reqs (start register) (signed register) of
              Inl e \<Rightarrow> Inl e
            | Inr value \<Rightarrow>
                (case py_quot value (decimals register) of
                   Inl e \<Rightarrow> Inl e
                 | Inr v \<Rightarrow> Inr (RValue v)),
            reqs @ [Read_long (start register) (signed register)]))
      else if length_r register = 4 then
        (case read_registers ins reqs (start register) (length_r register) of
           Inl e \<Rightarrow> Inl e
         | Inr value \<Rightarrow>
             (case RTU_convert_value value (signed register) (decimals register)
                     (is_float register) of
                Inl e \<Rightarrow> Inl e
              | Inr v \<Rightarrow> Inr (RValue v)),
         reqs @ [Read_registers (start register) (length_r register)])
      else (Inr RNone, reqs))"

subsection \<open>\<^verbatim>\<open>SaiaMeter\<close>\<close>

text \<open>
  The S-Bus registers are 32 bits wide: the codec packs with \<^verbatim>\<open>L\<close>, knows one and two
  registers only, and has neither floats nor null sentinels.
\<close>

definition Saia_formatcode_i :: "nat \<Rightarrow> fmt list" where
  "Saia_formatcode_i n = (if n = 1 then [U32] else []) @ (if n = 2 then [U32, U32] else [])"

definition Saia_formatcode_o :: "nat \<Rightarrow> bool \<Rightarrow> fmt list" where
  "Saia_formatcode_o n sg =
     (if n = 1 then [if sg then I32 else U32] else [])
       @ (if n = 2 then [if sg then I64 else U64] else [])"

definition Saia_convert_value :: "int list \<Rightarrow> bool \<Rightarrow> int \<Rightarrow> py_error + decoded" where
  "Saia_convert_value values sg number_of_decimals =
     (let number_of_registers = length values in
      case struct_pack (Saia_formatcode_i number_of_registers) values of
        Inl e \<Rightarrow> Inl e
      | Inr bytestring \<Rightarrow>
          (case struct_unpack (Saia_formatcode_o number_of_registers sg) bytestring of
             Inl e \<Rightarrow> Inl e
           | Inr t \<Rightarrow> (case item0 t of
                         Inl e \<Rightarrow> Inl e
                       | Inr value \<Rightarrow> py_scale value number_of_decimals)))"

fun Saia_interpret_loop ::
  "int list \<Rightarrow> int \<Rightarrow> register list \<Rightarrow> results \<Rightarrow> py_error + results" where
  "Saia_interpret_loop data first_reg [] results = Inr results"
| "Saia_interpret_loop data first_reg (register # rest) results =
     (let start' = start register - first_reg;
          end' = start' + length_r register;
          values = py_slice data start' end'
      in case Saia_convert_value values (signed register) (decimals register) of
           Inl e \<Rightarrow> Inl e
         | Inr v \<Rightarrow>
             Saia_interpret_loop data first_reg rest (AList.update (name register) v results))"

definition Saia_interpret_result :: "int list \<Rightarrow> register list \<Rightarrow> py_error + results" where
  "Saia_interpret_result data registers =
     (case py_min (map start registers) of
        Inl e \<Rightarrow> Inl e
      | Inr first_reg \<Rightarrow> Saia_interpret_loop data first_reg registers [])"

definition Saia_read_multiple ::
  "instrument \<Rightarrow> register list \<Rightarrow> request list \<Rightarrow> (py_error + results) \<times> request list" where
  "Saia_read_multiple ins registers reqs =
     (case py_min (map start registers) of
        Inl e \<Rightarrow> (Inl e, reqs)
      | Inr first_reg \<Rightarrow>
          (case py_max (map (\<lambda>r. start r + length_r r) registers) of
             Inl e \<Rightarrow> (Inl e, reqs)
           | Inr m \<Rightarrow>
               (let num_regs = m - first_reg;
                    reqs' = reqs @ [Read_registers first_reg num_regs]
                in case read_registers ins reqs first_reg num_regs of
                     Inl e \<Rightarrow> (Inl e, reqs')
                   | Inr values \<Rightarrow> (Saia_interpret_result values registers, reqs'))))"

definition Saia_batch_read ::
  "instrument \<Rightarrow> register list \<Rightarrow> request list \<Rightarrow> (py_error + results) \<times> request list" where
  "Saia_batch_read ins = batch_read 10 (Saia_read_multiple ins)"

definition Saia_read_single ::
  "instrument \<Rightarrow> register \<Rightarrow> request list \<Rightarrow> (py_error + outcome) \<times> request list" where
  "Saia_read_single ins register reqs =
     (if length_r register = 1 then
        (case read_register ins reqs (start register) (decimals register) (signed register) of
           Inl e \<Rightarrow> Inl e
         | Inr v \<Rightarrow> Inr (RValue v),
         reqs @ [Read_register (start register) (decimals register) (signed register)])
      else if length_r register = 2 then
        (case read_long ins reqs (start register) (signed register) of
           Inl e \<Rightarrow> Inl e
         | Inr value \<Rightarrow>
             (case py_quot value (decimals register) of
                Inl e \<Rightarrow> Inl e
              | Inr v \<Rightarrow> Inr (RValue v)),
         reqs @ [Read_long (start register) (signed register)])
      else if length_r register = 4 then
        (case read_registers ins reqs (start register) (length_r register) of
           Inl e \<Rightarrow> Inl e
         | Inr value \<Rightarrow>
             (case Saia_convert_value value (signed register) (decimals register) of
                Inl e \<Rightarrow> Inl e
              | Inr v \<Rightarrow> Inr (RValue v)),
         reqs @ [Read_registers (start register) (length_r register)])
      else (Inr RNone, reqs))"

section \<open>The windows of the two batching policies\<close>

text \<open>
  The batches that the loop of \<^verbatim>\<open>_batch_read\<close> hands to \<^verbatim>\<open>_read_multiple\<close>, in order:
  the same tests and assignments as \<open>batch_read_loop\<close>, without the reads.
\<close>

fun batch_windows :: "int \<Rightarrow> register list \<Rightarrow> int \<Rightarrow> register list \<Rightarrow> register list list" where
  "batch_windows cap [] start_reg batch = [batch]"
| "batch_windows cap (register # rest) start_reg batch =
     (if start register + length_r register - start_reg \<le> cap
      then batch_windows cap rest start_reg (batch @ [register])
      else batch # batch_windows cap rest (start register) [register])"

text \<open>
  \<^verbatim>\<open>ModbusTCPMeter._split_ranges\<close> is a generator; its value is the list of the lists
  it yields. The first access \<^verbatim>\<open>registers[0]\<close> raises \<^verbatim>\<open>IndexError\<close> on an empty list,
  when the consumer asks for the first item.
\<close>

fun split_loop :: "register list \<Rightarrow> int \<Rightarrow> register list \<Rightarrow> register list list" where
  "split_loop [] prev_end reg_list = [reg_list]"
| "split_loop (r # rest) prev_end reg_list =
     (if start r - prev_end > 1
      then reg_list # split_loop rest (start r + length_r r) [r]
      else split_loop rest (start r + length_r r) (reg_list @ [r]))"

definition split_ranges :: "register list \<Rightarrow> py_error + register list list" where
  "split_ranges registers =
     (case registers of
        [] \<Rightarrow> Inl IndexError
      | r0 # _ \<Rightarrow> Inr (split_loop registers (start r0 - 1) []))"

text \<open>
  The address window that \<^verbatim>\<open>_read_multiple\<close> requests for a batch: the least start,
  and the distance from it to the greatest end.
\<close>

definition first_address :: "register list \<Rightarrow> int" where
  "first_address rs = fold min (map start (tl rs)) (start (hd rs))"

definition register_count :: "register list \<Rightarrow> int" where
  "register_count rs =
     fold max (map (\<lambda>r. start r + length_r r) (tl rs)) (start (hd rs) + length_r (hd rs))
       - first_address rs"

text \<open>The request that the serial \<^verbatim>\<open>_read_multiple\<close> makes for a batch.\<close>

definition window_request :: "register list \<Rightarrow> request" where
  "window_request rs = Read_registers (first_address rs) (register_count rs)"

text \<open>Reading a list of windows in order, stopping at the first exception.\<close>

fun read_windows ::
  "(register list \<Rightarrow> 'io \<Rightarrow> (py_error + results) \<times> 'io) \<Rightarrow> register list list \<Rightarrow> results
     \<Rightarrow> 'io \<Rightarrow> (py_error + results) \<times> 'io" where
  "read_windows read_multiple [] results io = (Inr results, io)"
| "read_windows read_multiple (w # ws) results io =
     (case read_multiple w io of
        (Inl e, io') \<Rightarrow> (Inl e, io')
      | (Inr m, io') \<Rightarrow> read_windows read_multiple ws (dict_update results m) io')"

section \<open>The batching rules in the words of the specification\<close>

text \<open>
  Gap-tolerant policy. A window \<open>fits\<close> when every register of it ends within
  \<open>maxBatchSize\<close> addresses of the window's first address; a list of windows is
  \<open>closed_late\<close> when the first register of every window but the first would not have
  fitted in the window before it.
\<close>

definition fits :: "int \<Rightarrow> register list \<Rightarrow> bool" where
  "fits cap w = list_all (\<lambda>r. start r + length_r r - start (hd w) \<le> cap) w"

fun closed_late :: "int \<Rightarrow> register list list \<Rightarrow> bool" where
  "closed_late cap (w1 # w2 # ws) =
     (start (hd w2) + length_r (hd w2) - start (hd w1) > cap \<and> closed_late cap (w2 # ws))"
| "closed_late cap [w] = True"
| "closed_late cap [] = True"

text \<open>
  Contiguity-strict policy. A window is \<open>adjacent\<close> when every register of it but the
  first starts at most one address past the end (\<open>start + length\<close>) of the register
  before it; a list of windows is \<open>gapped\<close> when the first register of every window but
  the first starts more than one address past the end of the last register of the
  window before it.
\<close>

fun adjacent :: "register list \<Rightarrow> bool" where
  "adjacent (r1 # r2 # rs) =
     (start r2 - (start r1 + length_r r1) \<le> 1 \<and> adjacent (r2 # rs))"
| "adjacent [r] = True"
| "adjacent [] = True"

fun gapped :: "register list list \<Rightarrow> bool" where
  "gapped (w1 # w2 # ws) =
     (start (hd w2) - (start (last w1) + length_r (last w1)) > 1 \<and> gapped (w2 # ws))"
| "gapped [w] = True"
| "gapped [] = True"

text \<open>No register starts before the end of the one before it.\<close>

fun non_overlapping :: "register list \<Rightarrow> bool" where
  "non_overlapping (r1 # r2 # rs) =
     (start r1 + length_r r1 \<le> start r2 \<and> non_overlapping (r2 # rs))"
| "non_overlapping [r] = True"
| "non_overlapping [] = True"

text \<open>
  The window spans from the start of its first register to the end of its last one.
\<close>

definition spans :: "register list \<Rightarrow> bool" where
  "spans w =
     (first_address w = start (hd w)
      \<and> register_count w = start (last w) + length_r (last w) - start (hd w))"

text \<open>
  \<open>ws\<close> is a gap-tolerant batching of \<open>regs\<close> with the cap \<open>cap\<close>: the windows are
  the registers in order, none is empty, a register is in the current window exactly
  when it fits (every member fits, and the register after a window does not), and the
  request of a window starts at the start of its first register.
\<close>

definition gap_tolerant :: "int \<Rightarrow> register list list \<Rightarrow> register list \<Rightarrow> bool" where
  "gap_tolerant cap ws regs =
     (concat ws = regs
      \<and> list_all (\<lambda>w. w \<noteq> [] \<and> fits cap w \<and> first_address w = start (hd w)) ws
      \<and> closed_late cap ws)"

text \<open>
  \<open>ws\<close> is a contiguity-strict splitting of \<open>regs\<close>: the windows are the registers in
  order, none is empty, consecutive registers share a window exactly when the next
  starts at most one address past the end of the one before.
\<close>

definition contiguity_strict :: "register list list \<Rightarrow> register list \<Rightarrow> bool" where
  "contiguity_strict ws regs =
     (concat ws = regs \<and> list_all (\<lambda>w. w \<noteq> [] \<and> adjacent w) ws \<and> gapped ws)"

text \<open>The batches of the two serial clients for a non-empty list.\<close>

definition RTU_windows :: "register list \<Rightarrow> register list list" where
  "RTU_windows regs = batch_windows 125 regs (start (hd regs)) []"

definition Saia_windows :: "register list \<Rightarrow> register list list" where
  "Saia_windows regs = batch_windows 10 regs (start (hd regs)) []"

section \<open>The TCP transport\<close>

text \<open>
  The socket of a \<^verbatim>\<open>ModbusTCPMeter\<close>: the messages written with \<^verbatim>\<open>send\<close> and the number
  of \<^verbatim>\<open>recv\<close> calls made so far. The network is a parameter: what the \<open>k\<close>-th call of
  \<^verbatim>\<open>recv(2048)\<close> returns, given the messages sent so far, is a chunk of bytes or an
  exception of the socket. Opening the connection and the 50 ms sleep before each
  \<^verbatim>\<open>recv\<close> are not modelled.
\<close>

record sock =
  sent :: "int list list"
  recvs :: nat

type_synonym net = "int list list \<Rightarrow> nat \<Rightarrow> py_error + int list"

text \<open>
  The attributes of a TCP meter class that the engine reads. \<open>rnd\<close> is the random
  source of \<^verbatim>\<open>random.randint(1, 2**16 - 1)\<close>: the \<open>k\<close>-th draw is
  \<open>1 + rnd k mod 65535\<close>, and the draws are counted by the messages sent.
\<close>

record tcp_meter =
  device_id :: int
  PROTOCOL_CODE :: int
  FUNCTION_CODE :: int
  REG_OFFSET :: int
  NULLS :: "int list"
  rnd :: "nat \<Rightarrow> int"

definition modbus_message :: "tcp_meter \<Rightarrow> nat \<Rightarrow> int \<Rightarrow> int \<Rightarrow> py_error + int list" where
  "modbus_message m k start_reg num_regs =
     (let transaction_id = 1 + rnd m k mod 65535
      in struct_pack [U16, U16, U16, U8, U8, U16, U16]
           [transaction_id, PROTOCOL_CODE m, 6, device_id m, FUNCTION_CODE m,
            start_reg - REG_OFFSET m, num_regs])"

text \<open>
  \<^verbatim>\<open>len(data) is not expect_bytes\<close> compares two ints by identity. In CPython the ints
  from \<open>-5\<close> to \<open>256\<close> are cached, one object per value, and every other int that a
  computation returns is a fresh object: \<^verbatim>\<open>a is b\<close> holds for computed ints exactly when
  they are equal and in the cached range.
\<close>

definition py_int_is :: "int \<Rightarrow> int \<Rightarrow> bool" where
  "py_int_is a b = (a = b \<and> - 5 \<le> a \<and> a \<le> 256)"

text \<open>
  The loop of \<^verbatim>\<open>_perform_request\<close>. \<open>regs\<close> is the register count read back from the
  last two bytes of the message with the format \<^verbatim>\<open>'>H'\<close>, which yields an int: the
  float case of \<open>perform_request\<close> below is there for totality only.
\<close>

function recv_loop ::
  "net \<Rightarrow> int \<Rightarrow> int \<Rightarrow> int list \<Rightarrow> int \<Rightarrow> sock \<Rightarrow> (py_error + int list) \<times> sock" where
  "recv_loop nw regs expect_bytes data attempt s =
     (if py_int_is (int (length data)) expect_bytes then (Inr (drop 9 data), s)
      else (case nw (sent s) (recvs s) of
              Inl e \<Rightarrow> (Inl e, s\<lparr>recvs := Suc (recvs s)\<rparr>)
            | Inr chunk \<Rightarrow>
                (if attempt \<ge> 10
                 then (Inr (replicate (nat (2 * regs)) 0), s\<lparr>recvs := Suc (recvs s)\<rparr>)
                 else recv_loop nw regs expect_bytes (data @ chunk) (attempt + 1)
                        (s\<lparr>recvs := Suc (recvs s)\<rparr>))))"
  by pat_completeness auto
termination
  by (relation "measure (\<lambda>(nw, regs, expect_bytes, data, attempt, s). nat (10 - attempt))") auto

definition perform_request :: "net \<Rightarrow> int list \<Rightarrow> sock \<Rightarrow> (py_error + int list) \<times> sock" where
  "perform_request nw message s =
     (let s' = s\<lparr>sent := sent s @ [message]\<rparr>
      in case struct_unpack [U16] (py_slice message (- 2) (int (length message))) of
           Inl e \<Rightarrow> (Inl e, s')
         | Inr t \<Rightarrow>
             (case item0 t of
                Inl e \<Rightarrow> (Inl e, s')
              | Inr (PyInt regs) \<Rightarrow> recv_loop nw regs (9 + 2 * regs) [] 1 s'
              | Inr (PyFloat f) \<Rightarrow> (Inl TypeError, s')))"

text \<open>
  \<^verbatim>\<open>if results[regname] == 0: results[regname] = 1\<close> on a decoded value. \<^verbatim>\<open>None\<close> is
  not equal to zero. A quotient is zero when its dividend is. With a dividend that is
  not zero the quotient is not zero as long as it cannot underflow: an int divided
  by at most \<open>10 ^ 308\<close>, a single-precision float (at least \<open>2^-149\<close> in size) divided
  by at most \<open>10 ^ 278\<close>, a double-precision float divided by at most 1. Where the
  quotient can underflow the result is kept symbolic.
\<close>

fun one_if_zero :: "decoded \<Rightarrow> decoded" where
  "one_if_zero PyNone = PyNone"
| "one_if_zero (Plain (PyInt i)) = (if i = 0 then Plain (PyInt 1) else Plain (PyInt i))"
| "one_if_zero (Plain (PyFloat f)) =
     (if float_value f = Some 0 then Plain (PyInt 1) else Plain (PyFloat f))"
| "one_if_zero (Scaled (PyInt i) d) =
     (if i = 0 then Plain (PyInt 1)
      else if d < 309 then Scaled (PyInt i) d
      else OneIfZero (Scaled (PyInt i) d))"
| "one_if_zero (Scaled (PyFloat (Single b)) d) =
     (if float_value (Single b) = Some 0 then Plain (PyInt 1)
      else if d < 279 then Scaled (PyFloat (Single b)) d
      else OneIfZero (Scaled (PyFloat (Single b)) d))"
| "one_if_zero (Scaled (PyFloat (Double b)) d) =
     (if float_value (Double b) = Some 0 then Plain (PyInt 1)
      else if d \<le> 0 then Scaled (PyFloat (Double b)) d
      else OneIfZero (Scaled (PyFloat (Double b)) d))"
| "one_if_zero (Quot i d) =
     (if i = 0 then Plain (PyInt 1)
      else if d < 309 then Quot i d
      else OneIfZero (Quot i d))"
| "one_if_zero (OneIfZero v) = OneIfZero v"

fun TCP_interpret_loop ::
  "int list \<Rightarrow> int list \<Rightarrow> int \<Rightarrow> register list \<Rightarrow> results \<Rightarrow> py_error + results" where
  "TCP_interpret_loop nulls data first_reg [] results = Inr results"
| "TCP_interpret_loop nulls data first_reg (register # rest) results =
     (let start' = (start register - first_reg) * 2;
          end' = start' + length_r register * 2;
          values = py_slice data start' end'
      in case TCP_convert_value nulls values (signed register) (decimals register)
                (is_float register) of
           Inl e \<Rightarrow> Inl e
         | Inr v \<Rightarrow>
             TCP_interpret_loop nulls data first_reg rest
               (AList.update (name register)
                  (if name register = ''power_factor_total'' then one_if_zero v else v)
                  results))"

definition TCP_interpret_result ::
  "int list \<Rightarrow> int list \<Rightarrow> register list \<Rightarrow> py_error + results" where
  "TCP_interpret_result nulls data registers =
     (case py_min (map start registers) of
        Inl e \<Rightarrow> Inl e
      | Inr first_reg \<Rightarrow> TCP_interpret_loop nulls data first_reg registers [])"

text \<open>
  One request and response for an address window. The synchronous client builds the
  message and calls \<^verbatim>\<open>_perform_request\<close>.
\<close>

definition TCP_exchange ::
  "tcp_meter \<Rightarrow> net \<Rightarrow> int \<Rightarrow> int \<Rightarrow> sock \<Rightarrow> (py_error + int list) \<times> sock" where
  "TCP_exchange m nw first_reg num_regs s =
     (case modbus_message m (length (sent s)) first_reg num_regs of
        Inl e \<Rightarrow> (Inl e, s)
      | Inr message \<Rightarrow> perform_request nw message s)"

text \<open>
  The asynchronous client writes the message and awaits
  \<^verbatim>\<open>reader.readexactly(9 + 2 * num_regs)\<close>, which returns exactly that many bytes or
  raises; the stream reader is the parameter \<open>rd\<close>. A read that never completes is not
  modelled.
\<close>

type_synonym reader = "int list list \<Rightarrow> int \<Rightarrow> py_error + int list"

definition Async_exchange ::
  "tcp_meter \<Rightarrow> reader \<Rightarrow> int \<Rightarrow> int \<Rightarrow> sock \<Rightarrow> (py_error + int list) \<times> sock" where
  "Async_exchange m rd first_reg num_regs s =
     (case modbus_message m (length (sent s)) first_reg num_regs of
        Inl e \<Rightarrow> (Inl e, s)
      | Inr message \<Rightarrow>
          (let s' = s\<lparr>sent := sent s @ [message]\<rparr>
           in case rd (sent s') (9 + 2 * num_regs) of
                Inl e \<Rightarrow> (Inl e, s')
              | Inr data \<Rightarrow>
                  (if int (length data) = 9 + 2 * num_regs then (Inr (drop 9 data), s')
                   else (Inl IOError, s'))))"

text \<open>
  The body of the loop of \<^verbatim>\<open>_read_multiple\<close> for one range, and the loop over the
  ranges that \<^verbatim>\<open>_split_ranges\<close> yields. The two clients differ in the exchange only.
\<close>

definition TCP_read_range ::
  "(int \<Rightarrow> int \<Rightarrow> sock \<Rightarrow> (py_error + int list) \<times> sock) \<Rightarrow> int list \<Rightarrow> register list
     \<Rightarrow> sock \<Rightarrow> (py_error + results) \<times> sock" where
  "TCP_read_range exchange nulls reg_range s =
     (case py_min (map start reg_range) of
        Inl e \<Rightarrow> (Inl e, s)
      | Inr first_reg \<Rightarrow>
          (case py_max (map (\<lambda>r. start r + length_r r) reg_range) of
             Inl e \<Rightarrow> (Inl e, s)
           | Inr m \<Rightarrow>
               (case exchange first_reg (m - first_reg) s of
                  (Inl e, s') \<Rightarrow> (Inl e, s')
                | (Inr data, s') \<Rightarrow> (TCP_interpret_result nulls data reg_range, s'))))"

definition TCP_read_sorted ::
  "(int \<Rightarrow> int \<Rightarrow> sock \<Rightarrow> (py_error + int list) \<times> sock) \<Rightarrow> int list \<Rightarrow> register list
     \<Rightarrow> sock \<Rightarrow> (py_error + results) \<times> sock" where
  "TCP_read_sorted exchange nulls registers s =
     (case split_ranges registers of
        Inl e \<Rightarrow> (Inl e, s)
      | Inr ranges \<Rightarrow> read_windows (TCP_read_range exchange nulls) ranges [] s)"

text \<open>
  \<^verbatim>\<open>ModbusTCPMeter._read_single\<close> passes neither \<^verbatim>\<open>is_float\<close> nor the register's span:
  the whole payload is decoded as an integer.
\<close>

definition TCP_read_single ::
  "tcp_meter \<Rightarrow> net \<Rightarrow> register \<Rightarrow> sock \<Rightarrow> (py_error + outcome) \<times> sock" where
  "TCP_read_single m nw register s =
     (case TCP_exchange m nw (start register) (length_r register) s of
        (Inl e, s') \<Rightarrow> (Inl e, s')
      | (Inr data, s') \<Rightarrow>
          (case TCP_convert_value (NULLS m) data (signed register) (decimals register) False of
             Inl e \<Rightarrow> Inl e
           | Inr v \<Rightarrow> Inr (RValue v), s'))"

definition Async_read_single ::
  "tcp_meter \<Rightarrow> reader \<Rightarrow> register \<Rightarrow> sock \<Rightarrow> (py_error + outcome) \<times> sock" where
  "Async_read_single m rd register s =
     (case Async_exchange m rd (start register) (length_r register) s of
        (Inl e, s') \<Rightarrow> (Inl e, s')
      | (Inr data, s') \<Rightarrow>
          (case TCP_convert_value (NULLS m) data (signed register) (decimals register)
                  (is_float register) of
             Inl e \<Rightarrow> Inl e
           | Inr v \<Rightarrow> Inr (RValue v), s'))"

section \<open>The catalog as a mutable list\<close>

text \<open>
  \<^verbatim>\<open>self.REGS\<close> is a reference to a Python list, and \<^verbatim>\<open>list.sort\<close> works in place, so
  the lists of registers live in a store: a reference is an address, a list
  comprehension allocates a fresh address, and sorting rewrites the cell it is given.
  Python's sort is stable, as is \<open>sort_key\<close>.
\<close>

record store =
  cells :: "nat \<Rightarrow> register list"
  next_ref :: nat

definition new_list :: "store \<Rightarrow> register list \<Rightarrow> nat \<times> store" where
  "new_list h xs = (next_ref h, h\<lparr>cells := (cells h)(next_ref h := xs), next_ref := Suc (next_ref h)\<rparr>)"

definition list_sort :: "store \<Rightarrow> nat \<Rightarrow> store" where
  "list_sort h a = h\<lparr>cells := (cells h)(a := sort_key start (cells h a))\<rparr>"

section \<open>The public \<^verbatim>\<open>read\<close> methods\<close>

text \<open>
  The argument \<^verbatim>\<open>regnames\<close>: \<^verbatim>\<open>None\<close>, a \<^verbatim>\<open>str\<close>, a \<^verbatim>\<open>list\<close> of names, another iterable
  container of names (a tuple or a set), or any other object (an int, say).
\<close>

datatype selector =
    SelNone
  | SelStr string
  | SelList "string list"
  | SelIter "string list"
  | SelOther

text \<open>
  \<^verbatim>\<open>ModbusRTUMeter.read\<close>. The two \<^verbatim>\<open>print\<close> calls that warn about unavailable names
  write to the standard output only and are left out. The result is the returned
  value or the exception, the store and the transport log.
\<close>

definition RTU_read ::
  "instrument \<Rightarrow> nat \<Rightarrow> selector \<Rightarrow> store \<Rightarrow> request list
     \<Rightarrow> (py_error + outcome) \<times> store \<times> request list" where
  "RTU_read ins REGS regnames h reqs =
     (case regnames of
        SelNone \<Rightarrow>
          (case RTU_batch_read ins (cells h REGS) reqs of
             (Inl e, reqs') \<Rightarrow> (Inl e, h, reqs')
           | (Inr d, reqs') \<Rightarrow> (Inr (RDict d), h, reqs'))
      | SelList names \<Rightarrow>
          (case new_list h (filter (\<lambda>register. name register \<in> set names) (cells h REGS)) of
             (registers, h1) \<Rightarrow>
               (if length (cells h1 registers) = 0 then (Inr (RDict []), h1, reqs)
                else (let h2 = list_sort h1 registers
                      in case RTU_batch_read ins (cells h2 registers) reqs of
                           (Inl e, reqs') \<Rightarrow> (Inl e, h2, reqs')
                         | (Inr d, reqs') \<Rightarrow> (Inr (RDict d), h2, reqs'))))
      | SelStr regname \<Rightarrow>
          (case new_list h (filter (\<lambda>register. name register = regname) (cells h REGS)) of
             (registers, h1) \<Rightarrow>
               (case cells h1 registers of
                  [] \<Rightarrow> (Inr (RStr ''Register not found on device.''), h1, reqs)
                | r0 # _ \<Rightarrow>
                    (case RTU_read_single ins r0 reqs of (r, reqs') \<Rightarrow> (r, h1, reqs'))))
      | SelIter names \<Rightarrow> (Inl TypeError, h, reqs)
      | SelOther \<Rightarrow> (Inl TypeError, h, reqs))"

text \<open>\<^verbatim>\<open>SaiaMeter.read\<close>: an unknown single name raises \<^verbatim>\<open>ValueError\<close>.\<close>

definition Saia_read ::
  "instrument \<Rightarrow> nat \<Rightarrow> selector \<Rightarrow> store \<Rightarrow> request list
     \<Rightarrow> (py_error + outcome) \<times> store \<times> request list" where
  "Saia_read ins REGS regnames h reqs =
     (case regnames of
        SelNone \<Rightarrow>
          (case Saia_batch_read ins (cells h REGS) reqs of
             (Inl e, reqs') \<Rightarrow> (Inl e, h, reqs')
           | (Inr d, reqs') \<Rightarrow> (Inr (RDict d), h, reqs'))
      | SelList names \<Rightarrow>
          (case new_list h (filter (\<lambda>register. name register \<in> set names) (cells h REGS)) of
             (registers, h1) \<Rightarrow>
               (if length (cells h1 registers) = 0 then (Inr (RDict []), h1, reqs)
                else (let h2 = list_sort h1 registers
                      in case Saia_batch_read ins (cells h2 registers) reqs of
                           (Inl e, reqs') \<Rightarrow> (Inl e, h2, reqs')
                         | (Inr d, reqs') \<Rightarrow> (Inr (RDict d), h2, reqs'))))
      | SelStr regname \<Rightarrow>
          (case new_list h (filter (\<lambda>register. name register = regname) (cells h REGS)) of
             (registers, h1) \<Rightarrow>
               (case cells h1 registers of
                  [] \<Rightarrow> (Inl ValueError, h1, reqs)
                | r0 # _ \<Rightarrow>
                    (case Saia_read_single ins r0 reqs of (r, reqs') \<Rightarrow> (r, h1, reqs'))))
      | SelIter names \<Rightarrow> (Inl TypeError, h, reqs)
      | SelOther \<Rightarrow> (Inl TypeError, h, reqs))"

text \<open>
  \<^verbatim>\<open>_read_multiple\<close> of the TCP clients: the list it is given is sorted in place, then
  split and read.
\<close>

definition TCP_read_multiple ::
  "(int \<Rightarrow> int \<Rightarrow> sock \<Rightarrow> (py_error + int list) \<times> sock) \<Rightarrow> int list \<Rightarrow> nat \<Rightarrow> store
     \<Rightarrow> sock \<Rightarrow> (py_error + outcome) \<times> store \<times> sock" where
  "TCP_read_multiple exchange nulls registers h s =
     (let h' = list_sort h registers
      in case TCP_read_sorted exchange nulls (cells h' registers) s of
           (Inl e, s') \<Rightarrow> (Inl e, h', s')
         | (Inr d, s') \<Rightarrow> (Inr (RDict d), h', s'))"

text \<open>
  \<^verbatim>\<open>ModbusTCPMeter.read\<close>: three \<^verbatim>\<open>if\<close> statements and no \<^verbatim>\<open>else\<close>, so any other
  argument falls off the end of the method, which returns \<^verbatim>\<open>None\<close>.
\<close>

definition TCP_read ::
  "tcp_meter \<Rightarrow> net \<Rightarrow> nat \<Rightarrow> selector \<Rightarrow> store \<Rightarrow> sock
     \<Rightarrow> (py_error + outcome) \<times> store \<times> sock" where
  "TCP_read m nw REGS regnames h s =
     (case regnames of
        SelNone \<Rightarrow> TCP_read_multiple (TCP_exchange m nw) (NULLS m) REGS h s
      | SelStr regname \<Rightarrow>
          (case new_list h (filter (\<lambda>register. name register = regname) (cells h REGS)) of
             (registers, h1) \<Rightarrow>
               (case item0 (cells h1 registers) of
                  Inl e \<Rightarrow> (Inl e, h1, s)
                | Inr r0 \<Rightarrow>
                    (case TCP_read_single m nw r0 s of (r, s') \<Rightarrow> (r, h1, s'))))
      | SelList names \<Rightarrow>
          (case new_list h (filter (\<lambda>register. name register \<in> set names) (cells h REGS)) of
             (registers, h1) \<Rightarrow> TCP_read_multiple (TCP_exchange m nw) (NULLS m) registers h1 s)
      | SelIter names \<Rightarrow> (Inr RNone, h, s)
      | SelOther \<Rightarrow> (Inr RNone, h, s))"

text \<open>
  \<^verbatim>\<open>AsyncModbusTCPMeter.read\<close>: tests with \<^verbatim>\<open>isinstance\<close>, accepts every iterable as
  a collection of names, and answers an unknown single name with a message.
\<close>

definition Async_read ::
  "tcp_meter \<Rightarrow> reader \<Rightarrow> nat \<Rightarrow> selector \<Rightarrow> store \<Rightarrow> sock
     \<Rightarrow> (py_error + outcome) \<times> store \<times> sock" where
  "Async_read m rd REGS regnames h s =
     (case regnames of
        SelNone \<Rightarrow> TCP_read_multiple (Async_exchange m rd) (NULLS m) REGS h s
      | SelStr regname \<Rightarrow>
          (case new_list h (filter (\<lambda>register. name register = regname) (cells h REGS)) of
             (registers, h1) \<Rightarrow>
               (case cells h1 registers of
                  [] \<Rightarrow> (Inr (RStr ''Register not found on device.''), h1, s)
                | r0 # _ \<Rightarrow>
                    (case Async_read_single m rd r0 s of (r, s') \<Rightarrow> (r, h1, s'))))
      | SelList names \<Rightarrow>
          (case new_list h (filter (\<lambda>register. name register \<in> set names) (cells h REGS)) of
             (registers, h1) \<Rightarrow> TCP_read_multiple (Async_exchange m rd) (NULLS m) registers h1 s)
      | SelIter names \<Rightarrow>
          (case new_list h (filter (\<lambda>register. name register \<in> set names) (cells h REGS)) of
             (registers, h1) \<Rightarrow> TCP_read_multiple (Async_exchange m rd) (NULLS m) registers h1 s)
      | SelOther \<Rightarrow> (Inr RNone, h, s))"

section \<open>Catalogs\<close>

text \<open>
  A register literal without the key \<^verbatim>\<open>is_float\<close>, as all registers of the catalogs
  below are written.
\<close>

definition reg :: "string \<Rightarrow> int \<Rightarrow> int \<Rightarrow> bool \<Rightarrow> int \<Rightarrow> register" where
  "reg n s l sg d =
     \<lparr>name = n, start = s, length_r = l, signed = sg, decimals = d, is_float = False\<rparr>"

text \<open>\<^verbatim>\<open>SMAMeter.REGS\<close>, in the order of the source.\<close>

definition SMAMeter_REGS :: "register list" where
  "SMAMeter_REGS =
     [reg ''current_ac'' 40188 1 False (1),
      reg ''current_l1'' 40189 1 False (1),
      reg ''current_l2'' 40190 1 False (1),
      reg ''current_l3'' 40191 1 False (1),
      reg ''voltage_l1_l2'' 40193 1 False (1),
      reg ''voltage_l2_l3'' 40194 1 False (1),
      reg ''voltage_l3_l1'' 40195 1 False (1),
      reg ''voltage_l1_n'' 40196 1 False (1),
      reg ''voltage_l2_n'' 40197 1 False (1),
      reg ''voltage_l3_n'' 40198 1 False (1),
      reg ''active_power_total'' 40200 1 True (- 1),
      reg ''frequency'' 40202 1 False (2),
      reg ''apparent_power_total'' 40204 1 True (- 1),
      reg ''reactive_power_total'' 40206 1 True (- 1),
      reg ''power_factor_total'' 40208 1 True (3),
      reg ''active_export'' 40210 2 False (3),
      reg ''dc_power'' 40217 1 False (- 1),
      reg ''temperature_internal'' 40219 1 False (0),
      reg ''temperature_other'' 40222 1 False (0),
      reg ''operating_status'' 40224 1 False (0)]"

text \<open>
  The catalog of an \<^verbatim>\<open>ABBMeter\<close> built with \<^verbatim>\<open>model="B21"\<close>: the registers of
  \<^verbatim>\<open>ABBMeter._REGS\<close> whose names are in \<^verbatim>\<open>REGSETS["B21"]\<close>, in the order of \<^verbatim>\<open>_REGS\<close>.
\<close>

definition ABBMeter_B21_REGS :: "register list" where
  "ABBMeter_B21_REGS =
     [reg ''active_import'' 20480 4 True (2),
      reg ''active_export'' 20484 4 True (2),
      reg ''active_net'' 20488 4 True (2),
      reg ''reactive_import'' 20492 4 True (2),
      reg ''reactive_export'' 20496 4 True (2),
      reg ''reactive_net'' 20500 4 True (2),
      reg ''apparent_import'' 20504 4 True (2),
      reg ''apparent_export'' 20508 4 True (2),
      reg ''apparent_net'' 20512 4 True (2),
      reg ''active_import_co2'' 20516 4 True (2),
      reg ''active_import_currency'' 20532 4 True (2),
      reg ''voltage_l1_n'' 23296 2 False (1),
      reg ''current_l1'' 23308 2 False (2),
      reg ''active_power_total'' 23316 2 True (2),
      reg ''reactive_power_total'' 23324 2 True (2),
      reg ''apparent_power_total'' 23332 2 True (2),
      reg ''frequency'' 23340 1 False (2),
      reg ''phase_angle_power_total'' 23341 1 True (1),
      reg ''power_factor_total'' 23354 1 True (3),
      reg ''current_quadrant_total'' 23358 1 False (0)]"

text \<open>
  The class attributes of \<^verbatim>\<open>SMAMeter\<close> with the default \<^verbatim>\<open>slaveaddress=126\<close>.
\<close>

definition SMAMeter :: "(nat \<Rightarrow> int) \<Rightarrow> tcp_meter" where
  "SMAMeter r =
     \<lparr>device_id = 126, PROTOCOL_CODE = 0, FUNCTION_CODE = 3, REG_OFFSET = 1,
      NULLS = SMAMeter_NULLS, rnd = r\<rparr>"

text \<open>A store that holds one catalog, at address 0.\<close>

definition catalog_store :: "register list \<Rightarrow> store" where
  "catalog_store xs = \<lparr>cells = (\<lambda>a. [])(0 := xs), next_ref = 1\<rparr>"

section \<open>Test doubles of the devices\<close>

text \<open>A serial driver that answers every read: each register holds the word \<open>w\<close>.\<close>

definition constant_instrument :: "int \<Rightarrow> instrument" where
  "constant_instrument w =
     \<lparr>read_registers = (\<lambda>reqs a n. Inr (replicate (nat n) w)),
      read_register = (\<lambda>reqs a d sg. Inr (Scaled (PyInt w) d)),
      read_float = (\<lambda>reqs a n. Inr (Single 0)),
      read_long = (\<lambda>reqs a sg. Inr w)\<rparr>"

text \<open>
  The register count of a request message (its last two bytes), and a response frame:
  nine header bytes and two bytes \<open>hi\<close>, \<open>lo\<close> for every register.
\<close>

definition message_count :: "int list \<Rightarrow> nat" where
  "message_count message = nat (be_int (py_slice message (- 2) (int (length message))))"

definition response_frame :: "int \<Rightarrow> int \<Rightarrow> nat \<Rightarrow> int list" where
  "response_frame hi lo n = replicate 9 0 @ concat (replicate n [hi, lo])"

text \<open>
  A network that delivers the whole response to the last message in the \<open>k\<close>-th
  \<^verbatim>\<open>recv\<close> after that message was sent, and nothing in the calls before; \<open>k\<close> counts
  from 0, and \<open>base\<close> is the number of \<^verbatim>\<open>recv\<close> calls made before the message was sent.
\<close>

definition delayed_net :: "nat \<Rightarrow> nat \<Rightarrow> int \<Rightarrow> int \<Rightarrow> net" where
  "delayed_net base k hi lo sent_messages i =
     (if sent_messages \<noteq> [] \<and> i = base + k
      then Inr (response_frame hi lo (message_count (last sent_messages)))
      else Inr [])"

text \<open>A stream reader that returns the whole response to the last message.\<close>

definition constant_reader :: "int \<Rightarrow> int \<Rightarrow> reader" where
  "constant_reader hi lo sent_messages n =
     (if sent_messages = [] then Inl IOError
      else Inr (response_frame hi lo (message_count (last sent_messages))))"

text \<open>A network that delivers the whole response to the last message in every \<^verbatim>\<open>recv\<close>.\<close>

definition prompt_net :: "int \<Rightarrow> int \<Rightarrow> net" where
  "prompt_net hi lo sent_messages i =
     (if sent_messages = [] then Inr []
      else Inr (response_frame hi lo (message_count (last sent_messages))))"

section \<open>Big-endian packing\<close>

lemma be_bytes2: "be_bytes 2 w = [w div 256 mod 256, w mod 256]"
  by (simp add: numeral_2_eq_2)

lemma word_split:
  "0 \<le> w \<Longrightarrow> w < 65536 \<Longrightarrow> (w div 256 mod 256) * 256 + w mod 256 = (w::int)"
  by (simp add: div_mult_mod_eq)

lemma be_int_word: "word_ok w \<Longrightarrow> be_int (be_bytes 2 w) = w"
  using word_split[of w] by (simp add: be_int_def be_bytes2 word_ok_def)

lemma foldl_be:
  "foldl (\<lambda>acc b. acc * 256 + b) acc bs = acc * 256 ^ length bs + be_int bs"
proof (induction bs arbitrary: acc)
  case Nil
  then show ?case by (simp add: be_int_def)
next
  case (Cons b bs)
  have "foldl (\<lambda>acc b. acc * 256 + b) acc (b # bs)
          = (acc * 256 + b) * 256 ^ length bs + be_int bs"
    using Cons.IH[of "acc * 256 + b"] by simp
  moreover have "be_int (b # bs) = b * 256 ^ length bs + be_int bs"
    using Cons.IH[of b] by (simp add: be_int_def)
  ultimately show ?case by (simp add: algebra_simps)
qed

lemma be_int_append: "be_int (xs @ ys) = be_int xs * 256 ^ length ys + be_int ys"
  using foldl_be[of "be_int xs" ys] by (simp add: be_int_def)

lemma wire_bytes_snoc: "wire_bytes (ws @ [w]) = wire_bytes ws @ be_bytes 2 w"
  by (simp add: wire_bytes_def)

lemma words_be_snoc: "words_be (ws @ [w]) = words_be ws * 65536 + w"
  by (simp add: words_be_def)

lemma be_int_wire_bytes: "list_all word_ok ws \<Longrightarrow> be_int (wire_bytes ws) = words_be ws"
proof (induction ws rule: rev_induct)
  case Nil
  then show ?case by (simp add: wire_bytes_def words_be_def be_int_def)
next
  case (snoc w ws)
  then have ih: "be_int (wire_bytes ws) = words_be ws" and w: "word_ok w" by simp_all
  have len: "length (be_bytes 2 w) = 2" by (simp add: be_bytes2)
  show ?case
    unfolding wire_bytes_snoc words_be_snoc be_int_append ih len be_int_word[OF w] by simp
qed

lemma length_wire_bytes: "length (wire_bytes ws) = 2 * length ws"
  by (induction ws) (simp_all add: wire_bytes_def be_bytes2)

lemma wire_bytes_range: "list_all (\<lambda>v. 0 \<le> v \<and> v < 256) (wire_bytes ws)"
  by (induction ws) (simp_all add: wire_bytes_def be_bytes2)

lemma py_bytes_wire: "py_bytes (wire_bytes ws) = Inr (wire_bytes ws)"
  by (simp add: py_bytes_def wire_bytes_range)

lemma struct_pack_words:
  "list_all word_ok ws \<Longrightarrow> struct_pack (replicate (length ws) U16) ws = Inr (wire_bytes ws)"
  by (induction ws) (simp_all add: wire_bytes_def word_ok_def)

lemma unpack_one:
  "length bs = calcsize1 c \<Longrightarrow> struct_unpack [c] bs = Inr [unpack1 c bs]"
  by (simp add: struct_unpack_def calcsize_def)

lemma unpack_one_bad:
  "length bs \<noteq> calcsize1 c \<Longrightarrow> struct_unpack [c] bs = Inl StructError"
  by (simp add: struct_unpack_def calcsize_def)

lemma unpack_none_bad:
  "bs \<noteq> [] \<Longrightarrow> struct_unpack [] bs = Inl StructError"
  by (simp add: struct_unpack_def calcsize_def)

lemma unpack1_int:
  "unpack1 (if sg then I16 else U16) bs
     = PyInt (if sg then twos_complement 16 (be_int bs) else be_int bs)"
  "unpack1 (if sg then I32 else U32) bs
     = PyInt (if sg then twos_complement 32 (be_int bs) else be_int bs)"
  "unpack1 (if sg then I64 else U64) bs
     = PyInt (if sg then twos_complement 64 (be_int bs) else be_int bs)"
  by simp_all

lemma calcsize1_int:
  "calcsize1 (if sg then I16 else U16) = 2"
  "calcsize1 (if sg then I32 else U32) = 4"
  "calcsize1 (if sg then I64 else U64) = 8"
  by simp_all

section \<open>The serial codec\<close>

lemma RTU_formatcode_i_replicate:
  "n \<in> {1, 2, 4} \<Longrightarrow> RTU_formatcode_i n = replicate n U16"
  by (auto simp: RTU_formatcode_i_def eval_nat_numeral)

lemma RTU_formatcode_o_cases:
  "RTU_formatcode_o 1 sg = [if sg then I16 else U16]"
  "RTU_formatcode_o 2 sg = [if sg then I32 else U32]"
  "RTU_formatcode_o 4 sg = [if sg then I64 else U64]"
  by (simp_all add: RTU_formatcode_o_def)

lemma RTU_unpack_int:
  assumes ok: "list_all word_ok ws" and n: "length ws \<in> {1, 2, 4}"
  shows "struct_unpack (RTU_formatcode_o (length ws) sg) (wire_bytes ws)
      = Inr [PyInt (if sg then twos_complement (16 * length ws) (words_be ws) else words_be ws)]"
proof -
  have bi: "be_int (wire_bytes ws) = words_be ws" by (rule be_int_wire_bytes[OF ok])
  from n consider "length ws = 1" | "length ws = 2" | "length ws = 4" by auto
  then show ?thesis
  proof cases
    case 1
    then show ?thesis
      by (simp only: RTU_formatcode_o_cases)
         (simp add: unpack_one length_wire_bytes calcsize1_int unpack1_int bi
               del: unpack1.simps calcsize1.simps)
  next
    case 2
    then show ?thesis
      by (simp only: RTU_formatcode_o_cases)
         (simp add: unpack_one length_wire_bytes calcsize1_int unpack1_int bi
               del: unpack1.simps calcsize1.simps)
  next
    case 3
    then show ?thesis
      by (simp only: RTU_formatcode_o_cases)
         (simp add: unpack_one length_wire_bytes calcsize1_int unpack1_int bi
               del: unpack1.simps calcsize1.simps)
  qed
qed

lemma RTU_nonfloat:
  assumes ok: "list_all word_ok ws" and n: "length ws \<in> {1, 2, 4}" and d: "decimals_ok d"
  shows "RTU_convert_value ws sg d False
           = Inr (spec_nonfloat_decode (set ABBMeter_NULLS) ws sg d)"
proof -
  have pack: "struct_pack (RTU_formatcode_i (length ws)) ws = Inr (wire_bytes ws)"
    using struct_pack_words[OF ok] RTU_formatcode_i_replicate[OF n] by simp
  show ?thesis
    using d
    by (simp add: RTU_convert_value_def pack RTU_unpack_int[OF ok n] item0_def
          null_or_scaled_def py_scale_def decimals_ok_def spec_nonfloat_decode_def Let_def)
qed

lemma RTU_nonfloat_bad_scale:
  assumes ok: "list_all word_ok ws" and n: "length ws \<in> {1, 2, 4}" and d: "\<not> decimals_ok d"
  shows "RTU_convert_value ws sg d False
           = (if spec_nonfloat_decode (set ABBMeter_NULLS) ws sg d = PyNone then Inr PyNone
              else if d \<ge> 309 then Inl OverflowError else Inl ZeroDivisionError)"
proof -
  have pack: "struct_pack (RTU_formatcode_i (length ws)) ws = Inr (wire_bytes ws)"
    using struct_pack_words[OF ok] RTU_formatcode_i_replicate[OF n] by simp
  show ?thesis
    using d
    by (auto simp: RTU_convert_value_def pack RTU_unpack_int[OF ok n] item0_def
          null_or_scaled_def py_scale_def decimals_ok_def spec_nonfloat_decode_def Let_def)
qed

lemma RTU_float2:
  assumes ok: "list_all word_ok ws" and n: "length ws = 2"
  shows "RTU_convert_value ws sg d True = Inr (Plain (PyFloat (Single (words_be ws))))"
proof -
  have pack: "struct_pack [U16, U16] ws = Inr (wire_bytes ws)"
    using struct_pack_words[OF ok] n by (simp add: numeral_2_eq_2)
  have un: "struct_unpack [F32] (wire_bytes ws) = Inr [PyFloat (Single (words_be ws))]"
    using n by (simp add: unpack_one length_wire_bytes be_int_wire_bytes[OF ok])
  show ?thesis
    using n by (simp add: RTU_convert_value_def pack un item0_def)
qed

lemma RTU_float4:
  assumes ok: "list_all word_ok ws" and n: "length ws = 4"
  shows "RTU_convert_value ws sg d True = Inr (Plain (PyFloat (Double (words_be ws))))"
proof -
  have pack: "struct_pack [U16, U16, U16, U16] ws = Inr (wire_bytes ws)"
    using struct_pack_words[OF ok] n by (simp add: eval_nat_numeral)
  have un: "struct_unpack [F64] (wire_bytes ws) = Inr [PyFloat (Double (words_be ws))]"
    using n by (simp add: unpack_one length_wire_bytes be_int_wire_bytes[OF ok])
  show ?thesis
    using n by (simp add: RTU_convert_value_def pack un item0_def)
qed

section \<open>The TCP codec\<close>

lemma TCP_nonfloat:
  assumes ok: "list_all word_ok ws" and n: "length ws \<in> {1, 2}" and d: "decimals_ok d"
  shows "TCP_convert_value nulls (wire_bytes ws) sg d False
           = Inr (spec_nonfloat_decode (set nulls) ws sg d)"
proof -
  have bi: "be_int (wire_bytes ws) = words_be ws" by (rule be_int_wire_bytes[OF ok])
  from n consider "length ws = 1" | "length ws = 2" by auto
  then have "struct_unpack (TCP_formatcode_o (length (wire_bytes ws)) sg False) (wire_bytes ws)
      = Inr [PyInt (if sg then twos_complement (16 * length ws) (words_be ws) else words_be ws)]"
  proof cases
    case 1
    then have "TCP_formatcode_o (length (wire_bytes ws)) sg False = [if sg then I16 else U16]"
      by (simp add: TCP_formatcode_o_def length_wire_bytes)
    with 1 show ?thesis
      by (simp add: unpack_one length_wire_bytes calcsize1_int unpack1_int bi
               del: unpack1.simps calcsize1.simps)
  next
    case 2
    then have "TCP_formatcode_o (length (wire_bytes ws)) sg False = [if sg then I32 else U32]"
      by (simp add: TCP_formatcode_o_def length_wire_bytes)
    with 2 show ?thesis
      by (simp add: unpack_one length_wire_bytes calcsize1_int unpack1_int bi
               del: unpack1.simps calcsize1.simps)
  qed
  then show ?thesis
    using d
    by (simp add: TCP_convert_value_def py_bytes_wire item0_def null_or_scaled_def
          py_scale_def decimals_ok_def spec_nonfloat_decode_def Let_def)
qed

lemma TCP_nonfloat4:
  assumes n: "length ws = 4"
  shows "TCP_convert_value nulls (wire_bytes ws) sg d False = Inl StructError"
proof -
  have "TCP_formatcode_o (length (wire_bytes ws)) sg False = []"
    using n by (simp add: TCP_formatcode_o_def length_wire_bytes)
  moreover have "wire_bytes ws \<noteq> []"
    using n length_wire_bytes[of ws] by auto
  ultimately show ?thesis
    by (simp add: TCP_convert_value_def py_bytes_wire unpack_none_bad)
qed

lemma TCP_float2:
  assumes ok: "list_all word_ok ws" and n: "length ws = 2"
  shows "TCP_convert_value nulls (wire_bytes ws) sg d True
           = null_or_scaled nulls (PyFloat (Single (words_be ws))) d"
proof -
  have un: "struct_unpack [F32] (wire_bytes ws) = Inr [PyFloat (Single (words_be ws))]"
    using n by (simp add: unpack_one length_wire_bytes be_int_wire_bytes[OF ok])
  show ?thesis
    by (simp add: TCP_convert_value_def py_bytes_wire TCP_formatcode_o_def un item0_def)
qed

lemma TCP_float_other:
  assumes n: "length ws \<noteq> 2"
  shows "TCP_convert_value nulls (wire_bytes ws) sg d True = Inl StructError"
proof -
  have "length (wire_bytes ws) \<noteq> calcsize1 F32"
    using n by (simp add: length_wire_bytes)
  then show ?thesis
    by (simp add: TCP_convert_value_def py_bytes_wire TCP_formatcode_o_def unpack_one_bad)
qed

section \<open>Claims about the codecs\<close>

lemma set_ABBMeter_NULLS:
  "set ABBMeter_NULLS = {2 ^ 64 - 1, 2 ^ 63 - 1, 2 ^ 32 - 1, 2 ^ 31 - 1, 2 ^ 16 - 1, 2 ^ 15 - 1}"
  by (simp add: ABBMeter_NULLS_def)

lemma set_SMAMeter_NULLS:
  "set SMAMeter_NULLS = {2 ^ 16 - 1, 2 ^ 15 - 1, 2 ^ 15, - (2 ^ 15)}"
  by (simp add: SMAMeter_NULLS_def)

text \<open>
  Where the non-float rule of the specification holds: in the serial codec for 1, 2
  and 4 words, in the TCP codec for the wire bytes of 1 and 2 words, for every scale
  whose quotient exists. The eight wire bytes of 4 words find no branch in the TCP
  codec.
\<close>

lemma nonfloat_decode_both_codecs:
  assumes "list_all word_ok ws" and "length ws \<in> {1, 2, 4}" and "decimals_ok d"
  shows "RTU_convert_value ws sg d False
           = Inr (spec_nonfloat_decode
                    {2 ^ 64 - 1, 2 ^ 63 - 1, 2 ^ 32 - 1, 2 ^ 31 - 1, 2 ^ 16 - 1, 2 ^ 15 - 1} ws sg d)
       \<and> TCP_convert_value SMAMeter_NULLS (wire_bytes ws) sg d False
           = (if length ws = 4 then Inl StructError
              else Inr (spec_nonfloat_decode {2 ^ 16 - 1, 2 ^ 15 - 1, 2 ^ 15, - (2 ^ 15)} ws sg d))"
proof -
  have rtu: "RTU_convert_value ws sg d False
               = Inr (spec_nonfloat_decode (set ABBMeter_NULLS) ws sg d)"
    by (rule RTU_nonfloat[OF assms])
  have tcp: "TCP_convert_value SMAMeter_NULLS (wire_bytes ws) sg d False
               = (if length ws = 4 then Inl StructError
                  else Inr (spec_nonfloat_decode (set SMAMeter_NULLS) ws sg d))"
  proof (cases "length ws = 4")
    case True
    then show ?thesis by (simp add: TCP_nonfloat4)
  next
    case False
    with assms(2) have "length ws \<in> {1, 2}" by auto
    with False show ?thesis by (simp add: TCP_nonfloat[OF assms(1) _ assms(3)])
  qed
  show ?thesis
    using rtu tcp unfolding set_ABBMeter_NULLS set_SMAMeter_NULLS by simp
qed

text \<open>
  C1 (the code at the failing input): every non-float raw value of 1, 2 or 4 words
  must decode, in both codecs, to the big-endian integer of \<open>16 \<times> wordLength\<close> bits,
  absent on a sentinel and scaled otherwise. \<^verbatim>\<open>ModbusRTUMeter._convert_value\<close> does so.
  \<^verbatim>\<open>ModbusTCPMeter._convert_value\<close> chooses the format by the number of bytes and has
  branches for 1, 2 and 4 bytes only: for the eight bytes of a 4-word register (the
  energy registers of the ABB map that \<^verbatim>\<open>AsyncABBTCPMeter\<close> reads with this codec, with
  the sentinels \<open>2^64 - 1\<close> and \<open>2^63 - 1\<close>) the format stays \<^verbatim>\<open>'>'\<close> and
  \<^verbatim>\<open>struct.unpack\<close> raises \<^verbatim>\<open>struct.error\<close>, for a value as for a sentinel.
\<close>

theorem C1_tcp_codec_fails_on_four_words:
  "TCP_convert_value ABBMeter_NULLS (wire_bytes [0, 0, 0, 1]) True 2 False = Inl StructError
   \<and> RTU_convert_value [0, 0, 0, 1] True 2 False = Inr (Scaled (PyInt 1) 2)
   \<and> spec_nonfloat_decode
         {2 ^ 64 - 1, 2 ^ 63 - 1, 2 ^ 32 - 1, 2 ^ 31 - 1, 2 ^ 16 - 1, 2 ^ 15 - 1}
         [0, 0, 0, 1] True 2 = Scaled (PyInt 1) 2
   \<and> TCP_convert_value ABBMeter_NULLS (wire_bytes [65535, 65535, 65535, 65535]) False 2 False
       = Inl StructError
   \<and> RTU_convert_value [65535, 65535, 65535, 65535] False 2 False = Inr PyNone
   \<and> TCP_convert_value SMAMeter_NULLS (wire_bytes [0, 0, 0, 1]) True 2 False = Inl StructError"
proof -
  have a: "list_all word_ok [0, 0, 0, 1]" and b: "list_all word_ok [65535, 65535, 65535, 65535]"
    by (simp_all add: word_ok_def)
  have d: "decimals_ok 2" by (simp add: decimals_ok_def)
  have r1: "RTU_convert_value [0, 0, 0, 1] True 2 False = Inr (Scaled (PyInt 1) 2)"
    using RTU_nonfloat[OF a _ d, of True]
    by (simp add: spec_nonfloat_decode_def words_be_def twos_complement_def ABBMeter_NULLS_def)
  have r2: "RTU_convert_value [65535, 65535, 65535, 65535] False 2 False = Inr PyNone"
    using RTU_nonfloat[OF b _ d, of False]
    by (simp add: spec_nonfloat_decode_def words_be_def ABBMeter_NULLS_def)
  have s: "spec_nonfloat_decode
         {2 ^ 64 - 1, 2 ^ 63 - 1, 2 ^ 32 - 1, 2 ^ 31 - 1, 2 ^ 16 - 1, 2 ^ 15 - 1}
         [0, 0, 0, 1] True 2 = Scaled (PyInt 1) 2"
    by (simp add: spec_nonfloat_decode_def words_be_def twos_complement_def)
  show ?thesis
    using r1 r2 s by (simp add: TCP_nonfloat4)
qed

text \<open>
  Where the float rule of the specification holds: in the serial codec. The TCP codec
  decodes the wire bytes of two words as a single-precision float and then treats it
  like an integer; the wire bytes of four words find no format of their size.
\<close>

lemma float_decode_both_codecs:
  assumes "list_all word_ok ws" and "length ws \<in> {2, 4}"
  shows "RTU_convert_value ws sg d True = Inr (spec_float_decode ws)
       \<and> TCP_convert_value nulls (wire_bytes ws) sg d True
           = (if length ws = 4 then Inl StructError
              else null_or_scaled nulls (PyFloat (Single (words_be ws))) d)"
proof (cases "length ws = 4")
  case True
  then show ?thesis
    by (simp add: RTU_float4[OF assms(1)] TCP_float_other spec_float_decode_def)
next
  case False
  with assms(2) have n: "length ws = 2" by auto
  then show ?thesis
    by (simp add: RTU_float2[OF assms(1)] TCP_float2[OF assms(1)] spec_float_decode_def)
qed

text \<open>
  C5 (the code at the failing inputs): a float register must decode to the IEEE-754
  value of its big-endian words, a single for two words and a double for four, with no
  decimal scaling and no sentinel substitution, in both codecs.
  \<^verbatim>\<open>ModbusRTUMeter._convert_value\<close> returns the unpacked float at once.
  \<^verbatim>\<open>ModbusTCPMeter._convert_value\<close> only sets the format to \<^verbatim>\<open>'>f'\<close> and falls into the
  tail written for integers: the pattern of 65535.0 comes back as \<^verbatim>\<open>None\<close>, the pattern
  of 10.0 in a register with one decimal comes back divided by ten, and the eight
  bytes of a double raise \<^verbatim>\<open>struct.error\<close>. The serial codec decodes the same words
  as the claim says.
\<close>

theorem C5_tcp_codec_scales_and_nulls_floats:
  "TCP_convert_value SMAMeter_NULLS (wire_bytes [18303, 65280]) False 0 True = Inr PyNone
   \<and> RTU_convert_value [18303, 65280] False 0 True = Inr (Plain (PyFloat (Single 1199570688)))
   \<and> float_value (Single 1199570688) = Some 65535
   \<and> TCP_convert_value SMAMeter_NULLS (wire_bytes [16672, 0]) False 1 True
       = Inr (Scaled (PyFloat (Single 1092616192)) 1)
   \<and> RTU_convert_value [16672, 0] False 1 True = Inr (Plain (PyFloat (Single 1092616192)))
   \<and> float_value (Single 1092616192) = Some 10
   \<and> TCP_convert_value SMAMeter_NULLS (wire_bytes [16368, 0, 0, 0]) False 0 True
       = Inl StructError
   \<and> RTU_convert_value [16368, 0, 0, 0] False 0 True
       = Inr (Plain (PyFloat (Double 4607182418800017408)))
   \<and> float_value (Double 4607182418800017408) = Some 1"
proof -
  have a: "list_all word_ok [18303, 65280]" and b: "list_all word_ok [16672, 0]"
    and c: "list_all word_ok [16368, 0, 0, 0]"
    by (simp_all add: word_ok_def)
  have v: "ieee_value 8 23 1199570688 = Some 65535"
    by (simp add: ieee_value_def Let_def)
  have w: "ieee_value 8 23 1092616192 = Some 10"
    by (simp add: ieee_value_def Let_def)
  have x: "ieee_value 11 52 4607182418800017408 = Some 1"
    by (simp add: ieee_value_def Let_def)
  have t1: "TCP_convert_value SMAMeter_NULLS (wire_bytes [18303, 65280]) False 0 True = Inr PyNone"
    using TCP_float2[OF a, of SMAMeter_NULLS False 0]
    by (simp add: null_or_scaled_def words_be_def v SMAMeter_NULLS_def)
  have t2: "TCP_convert_value SMAMeter_NULLS (wire_bytes [16672, 0]) False 1 True
       = Inr (Scaled (PyFloat (Single 1092616192)) 1)"
    using TCP_float2[OF b, of SMAMeter_NULLS False 1]
    by (simp add: null_or_scaled_def py_scale_def words_be_def w SMAMeter_NULLS_def)
  have t3: "TCP_convert_value SMAMeter_NULLS (wire_bytes [16368, 0, 0, 0]) False 0 True
       = Inl StructError"
    by (simp add: TCP_float_other)
  have r1: "RTU_convert_value [18303, 65280] False 0 True
              = Inr (Plain (PyFloat (Single 1199570688)))"
    using RTU_float2[OF a, of False 0] by (simp add: words_be_def)
  have r2: "RTU_convert_value [16672, 0] False 1 True
              = Inr (Plain (PyFloat (Single 1092616192)))"
    using RTU_float2[OF b, of False 1] by (simp add: words_be_def)
  have r3: "RTU_convert_value [16368, 0, 0, 0] False 0 True
              = Inr (Plain (PyFloat (Double 4607182418800017408)))"
    using RTU_float4[OF c, of False 0] by (simp add: words_be_def)
  show ?thesis
    using t1 t2 t3 r1 r2 r3 v w x by simp
qed

section \<open>The windows of the gap-tolerant policy\<close>

lemma batch_read_loop_windows:
  "batch_read_loop cap rm regs s b res io = read_windows rm (batch_windows cap regs s b) res io"
proof (induction regs arbitrary: s b res io)
  case Nil
  show ?case by (simp split: prod.splits sum.splits)
next
  case (Cons r regs)
  show ?case
    by (simp add: Cons.IH split: prod.splits sum.splits)
qed

lemma batch_read_windows:
  "regs \<noteq> [] \<Longrightarrow>
   batch_read cap rm regs io = read_windows rm (batch_windows cap regs (start (hd regs)) []) [] io"
  by (cases regs) (simp_all add: batch_read_def batch_read_loop_windows)

lemma concat_batch_windows: "concat (batch_windows cap regs s b) = b @ regs"
  by (induction regs arbitrary: s b) simp_all

lemma fits_snoc:
  "b \<noteq> [] \<Longrightarrow> fits cap b \<Longrightarrow> start r + length_r r - start (hd b) \<le> cap \<Longrightarrow> fits cap (b @ [r])"
  by (simp add: fits_def)

lemma batch_windows_props:
  assumes "b \<noteq> []" and "s = start (hd b)" and "fits cap b"
    and "list_all (\<lambda>r. length_r r \<le> cap) regs"
  shows "list_all (\<lambda>w. w \<noteq> [] \<and> fits cap w) (batch_windows cap regs s b)
       \<and> closed_late cap (batch_windows cap regs s b)
       \<and> (\<exists>b' ws. batch_windows cap regs s b = (b @ b') # ws)"
  using assms
proof (induction regs arbitrary: s b)
  case Nil
  then show ?case by simp
next
  case (Cons r regs)
  show ?case
  proof (cases "start r + length_r r - s \<le> cap")
    case True
    have f: "fits cap (b @ [r])"
      using Cons.prems True by (simp add: fits_snoc)
    have "list_all (\<lambda>w. w \<noteq> [] \<and> fits cap w) (batch_windows cap regs s (b @ [r]))
       \<and> closed_late cap (batch_windows cap regs s (b @ [r]))
       \<and> (\<exists>b' ws. batch_windows cap regs s (b @ [r]) = ((b @ [r]) @ b') # ws)"
      using Cons.prems f by (intro Cons.IH) simp_all
    then obtain b' ws where
      a: "list_all (\<lambda>w. w \<noteq> [] \<and> fits cap w) (batch_windows cap regs s (b @ [r]))"
      and c: "closed_late cap (batch_windows cap regs s (b @ [r]))"
      and h: "batch_windows cap regs s (b @ [r]) = ((b @ [r]) @ b') # ws" by blast
    from h have "batch_windows cap regs s (b @ [r]) = (b @ (r # b')) # ws" by simp
    with a c True show ?thesis by auto
  next
    case False
    have f: "fits cap [r]"
      using Cons.prems by (simp add: fits_def)
    have "list_all (\<lambda>w. w \<noteq> [] \<and> fits cap w) (batch_windows cap regs (start r) [r])
       \<and> closed_late cap (batch_windows cap regs (start r) [r])
       \<and> (\<exists>b' ws. batch_windows cap regs (start r) [r] = ([r] @ b') # ws)"
      using Cons.prems f by (intro Cons.IH) simp_all
    then obtain b' ws where
      a: "list_all (\<lambda>w. w \<noteq> [] \<and> fits cap w) (batch_windows cap regs (start r) [r])"
      and c: "closed_late cap (batch_windows cap regs (start r) [r])"
      and h: "batch_windows cap regs (start r) [r] = ([r] @ b') # ws" by blast
    have "closed_late cap (b # batch_windows cap regs (start r) [r])"
      using c h False Cons.prems(2) by simp
    with a False Cons.prems show ?thesis by simp
  qed
qed

lemma batch_windows_initial:
  assumes "regs \<noteq> []" and "list_all (\<lambda>r. length_r r \<le> cap) regs"
  shows "list_all (\<lambda>w. w \<noteq> [] \<and> fits cap w) (batch_windows cap regs (start (hd regs)) [])
       \<and> closed_late cap (batch_windows cap regs (start (hd regs)) [])"
proof -
  obtain r rest where regs: "regs = r # rest" using assms(1) by (cases regs) auto
  have first: "batch_windows cap regs (start (hd regs)) [] = batch_windows cap rest (start r) [r]"
    using assms(2) by (simp add: regs)
  have "fits cap [r]" using assms(2) by (simp add: regs fits_def)
  then show ?thesis
    unfolding first using batch_windows_props[of "[r]" "start r" cap rest] assms(2)
    by (simp add: regs)
qed

section \<open>The windows of the contiguity-strict policy\<close>

lemma concat_split_loop: "concat (split_loop regs p l) = l @ regs"
  by (induction regs arbitrary: p l) simp_all

lemma adjacent_snoc:
  "l \<noteq> [] \<Longrightarrow> adjacent l \<Longrightarrow> start r - (start (last l) + length_r (last l)) \<le> 1
     \<Longrightarrow> adjacent (l @ [r])"
proof (induction l rule: adjacent.induct)
  case (1 r1 r2 rs)
  then show ?case by simp
next
  case (2 r')
  then show ?case by simp
next
  case 3
  then show ?case by simp
qed

lemma split_loop_props:
  assumes "l \<noteq> []" and "p = start (last l) + length_r (last l)" and "adjacent l"
  shows "list_all (\<lambda>w. w \<noteq> [] \<and> adjacent w) (split_loop regs p l)
       \<and> gapped (split_loop regs p l)
       \<and> (\<exists>l' ws. split_loop regs p l = (l @ l') # ws \<and> (regs = [] \<longrightarrow> l' = [] \<and> ws = []))"
  using assms
proof (induction regs arbitrary: p l)
  case Nil
  then show ?case by simp
next
  case (Cons r regs)
  show ?case
  proof (cases "start r - p > 1")
    case True
    have "list_all (\<lambda>w. w \<noteq> [] \<and> adjacent w) (split_loop regs (start r + length_r r) [r])
       \<and> gapped (split_loop regs (start r + length_r r) [r])
       \<and> (\<exists>l' ws. split_loop regs (start r + length_r r) [r] = ([r] @ l') # ws
              \<and> (regs = [] \<longrightarrow> l' = [] \<and> ws = []))"
      by (intro Cons.IH) simp_all
    then obtain l' ws where
      a: "list_all (\<lambda>w. w \<noteq> [] \<and> adjacent w) (split_loop regs (start r + length_r r) [r])"
      and g: "gapped (split_loop regs (start r + length_r r) [r])"
      and h: "split_loop regs (start r + length_r r) [r] = ([r] @ l') # ws" by blast
    have "gapped (l # split_loop regs (start r + length_r r) [r])"
      using g h True Cons.prems(2) by simp
    moreover have "split_loop (r # regs) p l = (l @ []) # split_loop regs (start r + length_r r) [r]"
      using True by simp
    ultimately show ?thesis using a Cons.prems True by auto
  next
    case False
    have adj: "adjacent (l @ [r])"
      using Cons.prems False by (intro adjacent_snoc) simp_all
    have "list_all (\<lambda>w. w \<noteq> [] \<and> adjacent w) (split_loop regs (start r + length_r r) (l @ [r]))
       \<and> gapped (split_loop regs (start r + length_r r) (l @ [r]))
       \<and> (\<exists>l' ws. split_loop regs (start r + length_r r) (l @ [r]) = ((l @ [r]) @ l') # ws
              \<and> (regs = [] \<longrightarrow> l' = [] \<and> ws = []))"
      using adj by (intro Cons.IH) simp_all
    then obtain l' ws where
      a: "list_all (\<lambda>w. w \<noteq> [] \<and> adjacent w) (split_loop regs (start r + length_r r) (l @ [r]))"
      and g: "gapped (split_loop regs (start r + length_r r) (l @ [r]))"
      and h: "split_loop regs (start r + length_r r) (l @ [r]) = ((l @ [r]) @ l') # ws" by blast
    from h have "split_loop regs (start r + length_r r) (l @ [r]) = (l @ (r # l')) # ws" by simp
    with a g False show ?thesis by auto
  qed
qed

lemma split_loop_initial:
  "split_loop (r # rest) (start r - 1) [] = split_loop rest (start r + length_r r) [r]"
  by simp

lemma split_ranges_props:
  assumes "regs \<noteq> []"
  shows "\<exists>ws. split_ranges regs = Inr ws \<and> concat ws = regs
           \<and> list_all (\<lambda>w. w \<noteq> [] \<and> adjacent w) ws \<and> gapped ws"
proof -
  obtain r rest where regs: "regs = r # rest" using assms by (cases regs) auto
  let ?ws = "split_loop rest (start r + length_r r) [r]"
  have eq: "split_ranges regs = Inr ?ws"
    by (simp add: split_ranges_def regs)
  have "concat ?ws = regs" by (simp add: concat_split_loop regs)
  moreover have "list_all (\<lambda>w. w \<noteq> [] \<and> adjacent w) ?ws \<and> gapped ?ws"
    using split_loop_props[of "[r]" "start r + length_r r" rest] by simp
  ultimately show ?thesis using eq by blast
qed

lemma split_loop_adjacent:
  "adjacent (l @ regs) \<Longrightarrow> l \<noteq> [] \<Longrightarrow> p = start (last l) + length_r (last l)
     \<Longrightarrow> split_loop regs p l = [l @ regs]"
proof (induction regs arbitrary: p l)
  case Nil
  then show ?case by simp
next
  case (Cons r regs)
  have step: "start r - (start (last l) + length_r (last l)) \<le> 1"
    using Cons.prems(1,2)
  proof (induction l rule: adjacent.induct)
    case (1 r1 r2 rs)
    then show ?case by simp
  next
    case (2 r')
    then show ?case by simp
  next
    case 3
    then show ?case by simp
  qed
  have "split_loop regs (start r + length_r r) (l @ [r]) = [(l @ [r]) @ regs]"
    using Cons.prems by (intro Cons.IH) simp_all
  with step Cons.prems(3) show ?case by simp
qed

lemma split_ranges_adjacent:
  "regs \<noteq> [] \<Longrightarrow> adjacent regs \<Longrightarrow> split_ranges regs = Inr [regs]"
proof -
  assume ne: "regs \<noteq> []" and adj: "adjacent regs"
  obtain r rest where regs: "regs = r # rest" using ne by (cases regs) auto
  have "split_loop rest (start r + length_r r) [r] = [[r] @ rest]"
    using adj by (intro split_loop_adjacent) (simp_all add: regs)
  then show ?thesis by (simp add: split_ranges_def regs)
qed

section \<open>The store under the \<^verbatim>\<open>read\<close> methods\<close>

lemma new_list_frame:
  "new_list h xs = (a, h') \<Longrightarrow> REGS < next_ref h \<Longrightarrow>
     cells h' REGS = cells h REGS \<and> cells h' a = xs \<and> a \<noteq> REGS \<and> REGS < next_ref h'"
  by (auto simp: new_list_def)

lemma list_sort_frame:
  "a \<noteq> REGS \<Longrightarrow> cells (list_sort h a) REGS = cells h REGS"
  by (simp add: list_sort_def)

lemma list_sort_cell: "cells (list_sort h a) a = sort_key start (cells h a)"
  by (simp add: list_sort_def)

lemma list_sort_next: "next_ref (list_sort h a) = next_ref h"
  by (simp add: list_sort_def)

lemma TCP_read_multiple_store:
  "fst (snd (TCP_read_multiple ex nulls a h s)) = list_sort h a"
  by (simp add: TCP_read_multiple_def Let_def split: prod.splits sum.splits)

lemma TCP_read_store:
  assumes "REGS < next_ref h"
  shows "cells (fst (snd (TCP_read m nw REGS sel h s))) REGS
           = (if sel = SelNone then sort_key start (cells h REGS) else cells h REGS)
       \<and> REGS < next_ref (fst (snd (TCP_read m nw REGS sel h s)))"
proof (cases sel)
  case SelNone
  then show ?thesis
    using assms by (simp add: TCP_read_def TCP_read_multiple_store list_sort_cell list_sort_next)
next
  case (SelStr nm)
  obtain a h1 where n: "new_list h (filter (\<lambda>r. name r = nm) (cells h REGS)) = (a, h1)"
    by (cases "new_list h (filter (\<lambda>r. name r = nm) (cells h REGS))") auto
  from new_list_frame[OF n assms] SelStr n show ?thesis
    by (simp add: TCP_read_def split: prod.splits sum.splits)
next
  case (SelList names)
  obtain a h1 where n: "new_list h (filter (\<lambda>r. name r \<in> set names) (cells h REGS)) = (a, h1)"
    by (cases "new_list h (filter (\<lambda>r. name r \<in> set names) (cells h REGS))") auto
  from new_list_frame[OF n assms] SelList n show ?thesis
    by (simp add: TCP_read_def TCP_read_multiple_store list_sort_frame list_sort_next)
next
  case (SelIter names)
  then show ?thesis using assms by (simp add: TCP_read_def)
next
  case SelOther
  then show ?thesis using assms by (simp add: TCP_read_def)
qed

lemma Async_read_store:
  assumes "REGS < next_ref h"
  shows "cells (fst (snd (Async_read m rd REGS sel h s))) REGS
           = (if sel = SelNone then sort_key start (cells h REGS) else cells h REGS)
       \<and> REGS < next_ref (fst (snd (Async_read m rd REGS sel h s)))"
proof (cases sel)
  case SelNone
  then show ?thesis
    using assms by (simp add: Async_read_def TCP_read_multiple_store list_sort_cell list_sort_next)
next
  case (SelStr nm)
  obtain a h1 where n: "new_list h (filter (\<lambda>r. name r = nm) (cells h REGS)) = (a, h1)"
    by (cases "new_list h (filter (\<lambda>r. name r = nm) (cells h REGS))") auto
  from new_list_frame[OF n assms] SelStr n show ?thesis
    by (simp add: Async_read_def split: prod.splits list.splits)
next
  case (SelList names)
  obtain a h1 where n: "new_list h (filter (\<lambda>r. name r \<in> set names) (cells h REGS)) = (a, h1)"
    by (cases "new_list h (filter (\<lambda>r. name r \<in> set names) (cells h REGS))") auto
  from new_list_frame[OF n assms] SelList n show ?thesis
    by (simp add: Async_read_def TCP_read_multiple_store list_sort_frame list_sort_next)
next
  case (SelIter names)
  obtain a h1 where n: "new_list h (filter (\<lambda>r. name r \<in> set names) (cells h REGS)) = (a, h1)"
    by (cases "new_list h (filter (\<lambda>r. name r \<in> set names) (cells h REGS))") auto
  from new_list_frame[OF n assms] SelIter n show ?thesis
    by (simp add: Async_read_def TCP_read_multiple_store list_sort_frame list_sort_next)
next
  case SelOther
  then show ?thesis using assms by (simp add: Async_read_def)
qed

lemma RTU_read_store:
  assumes "REGS < next_ref h"
  shows "cells (fst (snd (RTU_read ins REGS sel h reqs))) REGS = cells h REGS"
proof (cases sel)
  case SelNone
  then show ?thesis by (simp add: RTU_read_def split: prod.splits sum.splits)
next
  case (SelStr nm)
  obtain a h1 where n: "new_list h (filter (\<lambda>r. name r = nm) (cells h REGS)) = (a, h1)"
    by (cases "new_list h (filter (\<lambda>r. name r = nm) (cells h REGS))") auto
  from new_list_frame[OF n assms] SelStr n show ?thesis
    by (simp add: RTU_read_def split: prod.splits list.splits)
next
  case (SelList names)
  obtain a h1 where n: "new_list h (filter (\<lambda>r. name r \<in> set names) (cells h REGS)) = (a, h1)"
    by (cases "new_list h (filter (\<lambda>r. name r \<in> set names) (cells h REGS))") auto
  from new_list_frame[OF n assms] SelList n show ?thesis
    by (simp add: RTU_read_def Let_def list_sort_frame split: prod.splits sum.splits)
next
  case (SelIter names)
  then show ?thesis by (simp add: RTU_read_def)
next
  case SelOther
  then show ?thesis by (simp add: RTU_read_def)
qed

lemma sort_key_fixed: "(sort_key f xs = xs) = sorted (map f xs)"
proof
  assume "sort_key f xs = xs"
  then have "map f xs = map f (sort_key f xs)" by simp
  then show "sorted (map f xs)" by (simp only: sorted_sort_key)
next
  assume "sorted (map f xs)"
  then show "sort_key f xs = xs" by (rule sort_key_id_if_sorted)
qed

section \<open>Claims about the \<^verbatim>\<open>read\<close> methods\<close>

text \<open>
  C6 (the code at the failing input): a selector that is neither \<^verbatim>\<open>None\<close>, a string nor
  a list must be rejected with a type error before any transport call. The serial
  client does so. \<^verbatim>\<open>ModbusTCPMeter.read\<close> has no final \<^verbatim>\<open>else\<close>: for such a selector
  (an int, a tuple of names) it returns \<^verbatim>\<open>None\<close> and raises nothing; store and socket
  are left as they were.
\<close>

theorem C6_tcp_invalid_selector_returns_none:
  "TCP_read m nw REGS SelOther h s = (Inr RNone, h, s)
   \<and> TCP_read m nw REGS (SelIter names) h s = (Inr RNone, h, s)
   \<and> RTU_read ins REGS SelOther h reqs = (Inl TypeError, h, reqs)
   \<and> RTU_read ins REGS (SelIter names) h reqs = (Inl TypeError, h, reqs)"
  by (simp add: TCP_read_def RTU_read_def)

lemma filter_no_such_SMA:
  "filter (\<lambda>r. name r \<in> set [''no_such_register'']) SMAMeter_REGS = []"
  by (simp add: SMAMeter_REGS_def reg_def)

lemma filter_no_such_ABB:
  "filter (\<lambda>r. name r \<in> set [''no_such_register'']) ABBMeter_B21_REGS = []"
  by (simp add: ABBMeter_B21_REGS_def reg_def)

lemma filter_eq_no_such_SMA:
  "filter (\<lambda>r. name r = ''no_such_register'') SMAMeter_REGS = []"
  by (simp add: SMAMeter_REGS_def reg_def)

lemma filter_eq_no_such_ABB:
  "filter (\<lambda>r. name r = ''no_such_register'') ABBMeter_B21_REGS = []"
  by (simp add: ABBMeter_B21_REGS_def reg_def)

text \<open>
  C7 (the code at the failing input): a list selector none of whose names is in the
  catalog must give an empty result without an exception and without a transport
  call. The serial client returns the empty dict. The TCP client hands the empty list
  to \<^verbatim>\<open>_read_multiple\<close>, where \<^verbatim>\<open>_split_ranges\<close> reads \<^verbatim>\<open>registers[0]\<close>: the call raises
  \<^verbatim>\<open>IndexError\<close>, with nothing sent.
\<close>

theorem C7_tcp_empty_resolution_raises:
  "fst (TCP_read (SMAMeter r) nw 0 (SelList [''no_such_register''])
          (catalog_store SMAMeter_REGS) s) = Inl IndexError
   \<and> snd (snd (TCP_read (SMAMeter r) nw 0 (SelList [''no_such_register''])
          (catalog_store SMAMeter_REGS) s)) = s
   \<and> fst (RTU_read ins 0 (SelList [''no_such_register''])
          (catalog_store ABBMeter_B21_REGS) reqs) = Inr (RDict [])
   \<and> snd (snd (RTU_read ins 0 (SelList [''no_such_register''])
          (catalog_store ABBMeter_B21_REGS) reqs)) = reqs"
proof -
  have c1: "cells (catalog_store SMAMeter_REGS) 0 = SMAMeter_REGS"
    and c2: "cells (catalog_store ABBMeter_B21_REGS) 0 = ABBMeter_B21_REGS"
    by (simp_all add: catalog_store_def)
  show ?thesis
    unfolding TCP_read_def RTU_read_def selector.case c1 c2
      filter_no_such_SMA filter_no_such_ABB
    by (simp add: new_list_def TCP_read_multiple_def TCP_read_sorted_def list_sort_def
          split_ranges_def Let_def)
qed

text \<open>
  C8 (as stated in the specification, refuted for the serial client): a single name
  that is not in the catalog would make \<^verbatim>\<open>read\<close> fail. \<^verbatim>\<open>ModbusRTUMeter.read\<close> returns
  normally, and what it returns, in the place of the reading, is the string
  \<^verbatim>\<open>"Register not found on device."\<close>.
\<close>

theorem C8_rtu_not_found_counterexample:
  "fst (RTU_read (constant_instrument 7) 0 (SelStr ''no_such_register'')
          (catalog_store ABBMeter_B21_REGS) []) = Inr (RStr ''Register not found on device.'')
   \<and> \<not> isl (fst (RTU_read (constant_instrument 7) 0 (SelStr ''no_such_register'')
          (catalog_store ABBMeter_B21_REGS) []))
   \<and> snd (snd (RTU_read (constant_instrument 7) 0 (SelStr ''no_such_register'')
          (catalog_store ABBMeter_B21_REGS) [])) = []"
proof -
  have c2: "cells (catalog_store ABBMeter_B21_REGS) 0 = ABBMeter_B21_REGS"
    by (simp add: catalog_store_def)
  show ?thesis
    unfolding RTU_read_def selector.case c2 filter_eq_no_such_ABB
    by (simp add: new_list_def)
qed

text \<open>
  C8 (amended): for a string selector that names no register of the catalog, no client
  makes a transport call and no client returns a decoded register value or the absent
  value. \<^verbatim>\<open>ModbusRTUMeter.read\<close> does not fail: it returns the string
  \<^verbatim>\<open>"Register not found on device."\<close>. \<^verbatim>\<open>ModbusTCPMeter.read\<close> fails with
  \<^verbatim>\<open>IndexError\<close> and \<^verbatim>\<open>SaiaMeter.read\<close> fails with \<^verbatim>\<open>ValueError\<close>.
\<close>

theorem C8_single_name_not_found:
  assumes "filter (\<lambda>r. name r = regname) (cells h REGS) = []"
  shows "fst (RTU_read ins REGS (SelStr regname) h reqs)
           = Inr (RStr ''Register not found on device.'')
       \<and> snd (snd (RTU_read ins REGS (SelStr regname) h reqs)) = reqs
       \<and> fst (TCP_read m nw REGS (SelStr regname) h s) = Inl IndexError
       \<and> snd (snd (TCP_read m nw REGS (SelStr regname) h s)) = s
       \<and> fst (Saia_read ins REGS (SelStr regname) h reqs) = Inl ValueError
       \<and> snd (snd (Saia_read ins REGS (SelStr regname) h reqs)) = reqs
       \<and> (\<forall>v. fst (RTU_read ins REGS (SelStr regname) h reqs) \<noteq> Inr (RValue v)
              \<and> fst (TCP_read m nw REGS (SelStr regname) h s) \<noteq> Inr (RValue v)
              \<and> fst (Saia_read ins REGS (SelStr regname) h reqs) \<noteq> Inr (RValue v))"
  using assms
  by (simp add: RTU_read_def TCP_read_def Saia_read_def new_list_def item0_def)

theorem C8_single_name_not_found_witness:
  "filter (\<lambda>r. name r = ''no_such_register'') (cells (catalog_store SMAMeter_REGS) 0) = []
   \<and> fst (RTU_read (constant_instrument 7) 0 (SelStr ''no_such_register'')
            (catalog_store SMAMeter_REGS) [])
        = Inr (RStr ''Register not found on device.'')
   \<and> fst (TCP_read (SMAMeter (\<lambda>k. 0)) (delayed_net 0 0 1 2) 0 (SelStr ''no_such_register'')
            (catalog_store SMAMeter_REGS) \<lparr>sent = [], recvs = 0\<rparr>) = Inl IndexError
   \<and> snd (snd (TCP_read (SMAMeter (\<lambda>k. 0)) (delayed_net 0 0 1 2) 0
            (SelStr ''no_such_register'') (catalog_store SMAMeter_REGS)
            \<lparr>sent = [], recvs = 0\<rparr>)) = \<lparr>sent = [], recvs = 0\<rparr>
   \<and> fst (Saia_read (constant_instrument 7) 0 (SelStr ''no_such_register'')
            (catalog_store SMAMeter_REGS) []) = Inl ValueError"
proof -
  have f: "filter (\<lambda>r. name r = ''no_such_register'') (cells (catalog_store SMAMeter_REGS) 0) = []"
    by (simp add: catalog_store_def filter_eq_no_such_SMA)
  show ?thesis
    using C8_single_name_not_found[OF f, where ins = "constant_instrument 7" and reqs = "[]"
        and m = "SMAMeter (\<lambda>k. 0)" and nw = "delayed_net 0 0 1 2"
        and s = "\<lparr>sent = [], recvs = 0\<rparr>"] f
    by simp
qed

text \<open>
  C10: a \<^verbatim>\<open>read\<close> with a string or a list selector leaves the catalog list
  \<^verbatim>\<open>self.REGS\<close> as it was, in every client: the list that is sorted is a fresh one.
  \<^verbatim>\<open>ModbusTCPMeter.read(None)\<close> and \<^verbatim>\<open>AsyncModbusTCPMeter.read(None)\<close> hand
  \<^verbatim>\<open>self.REGS\<close> itself to \<^verbatim>\<open>_read_multiple\<close>, which sorts it in place: after the call
  the catalog is the stable sort of the old catalog by \<open>start\<close> (the same registers,
  ascending, so the declaration order survives only if it was ascending already),
  whatever the transport did, and every later \<^verbatim>\<open>read\<close> finds and leaves it in that
  order. The serial client never changes its catalog.
\<close>

theorem C10_catalog_frame:
  assumes "REGS < next_ref h"
  shows "cells (fst (snd (TCP_read m nw REGS sel h s))) REGS
           = (if sel = SelNone then sort_key start (cells h REGS) else cells h REGS)
       \<and> cells (fst (snd (Async_read m rd REGS sel h s))) REGS
           = (if sel = SelNone then sort_key start (cells h REGS) else cells h REGS)
       \<and> cells (fst (snd (RTU_read ins REGS sel h reqs))) REGS = cells h REGS
       \<and> sorted (map start (sort_key start (cells h REGS)))
       \<and> mset (sort_key start (cells h REGS)) = mset (cells h REGS)
       \<and> (sort_key start (cells h REGS) = cells h REGS) = sorted (map start (cells h REGS))
       \<and> cells (fst (snd (TCP_read m nw REGS sel' (fst (snd (TCP_read m nw REGS SelNone h s))) s')))
           REGS = sort_key start (cells h REGS)
       \<and> cells (fst (snd (Async_read m rd REGS sel'
                  (fst (snd (Async_read m rd REGS SelNone h s))) s')))
           REGS = sort_key start (cells h REGS)"
proof -
  let ?h1 = "fst (snd (TCP_read m nw REGS SelNone h s))"
  let ?h2 = "fst (snd (Async_read m rd REGS SelNone h s))"
  have t1: "cells ?h1 REGS = sort_key start (cells h REGS)" and n1: "REGS < next_ref ?h1"
    using TCP_read_store[OF assms, of m nw SelNone s] by simp_all
  have t2: "cells ?h2 REGS = sort_key start (cells h REGS)" and n2: "REGS < next_ref ?h2"
    using Async_read_store[OF assms, of m rd SelNone s] by simp_all
  have idem: "sort_key start (sort_key start (cells h REGS)) = sort_key start (cells h REGS)"
    by (simp add: sort_key_fixed)
  have a: "cells (fst (snd (TCP_read m nw REGS sel' ?h1 s'))) REGS = sort_key start (cells h REGS)"
    using TCP_read_store[OF n1, of m nw sel' s'] by (simp add: t1 idem)
  have b: "cells (fst (snd (Async_read m rd REGS sel' ?h2 s'))) REGS
             = sort_key start (cells h REGS)"
    using Async_read_store[OF n2, of m rd sel' s'] by (simp add: t2 idem)
  show ?thesis
    using TCP_read_store[OF assms, of m nw sel s] Async_read_store[OF assms, of m rd sel s]
      RTU_read_store[OF assms, of ins sel reqs] a b
    by (simp add: sort_key_fixed)
qed

theorem C10_catalog_frame_witness:
  "(0::nat) < next_ref (catalog_store [reg ''b'' 20 1 False 0, reg ''a'' 10 1 False 0])
   \<and> cells (fst (snd (TCP_read (SMAMeter (\<lambda>k. 0)) (delayed_net 0 0 1 2) 0 SelNone
        (catalog_store [reg ''b'' 20 1 False 0, reg ''a'' 10 1 False 0])
        \<lparr>sent = [], recvs = 0\<rparr>))) 0
       = [reg ''a'' 10 1 False 0, reg ''b'' 20 1 False 0]
   \<and> cells (fst (snd (TCP_read (SMAMeter (\<lambda>k. 0)) (delayed_net 0 0 1 2) 0 (SelList [''a'', ''b''])
        (catalog_store [reg ''b'' 20 1 False 0, reg ''a'' 10 1 False 0])
        \<lparr>sent = [], recvs = 0\<rparr>))) 0
       = [reg ''b'' 20 1 False 0, reg ''a'' 10 1 False 0]
   \<and> cells (fst (snd (RTU_read (constant_instrument 7) 0 SelNone
        (catalog_store [reg ''b'' 20 1 False 0, reg ''a'' 10 1 False 0]) []))) 0
       = [reg ''b'' 20 1 False 0, reg ''a'' 10 1 False 0]"
proof -
  have n: "(0::nat) < next_ref (catalog_store [reg ''b'' 20 1 False 0, reg ''a'' 10 1 False 0])"
    by (simp add: catalog_store_def)
  have c: "cells (catalog_store [reg ''b'' 20 1 False 0, reg ''a'' 10 1 False 0]) 0
             = [reg ''b'' 20 1 False 0, reg ''a'' 10 1 False 0]"
    by (simp add: catalog_store_def)
  have s: "sort_key start [reg ''b'' 20 1 False 0, reg ''a'' 10 1 False 0]
             = [reg ''a'' 10 1 False 0, reg ''b'' 20 1 False 0]"
    by (simp add: reg_def)
  show ?thesis
    using n
      C10_catalog_frame[OF n, where m = "SMAMeter (\<lambda>k. 0)" and nw = "delayed_net 0 0 1 2"
        and sel = SelNone and s = "\<lparr>sent = [], recvs = 0\<rparr>" and rd = "constant_reader 1 2"
        and ins = "constant_instrument 7" and reqs = "[]" and sel' = SelNone
        and s' = "\<lparr>sent = [], recvs = 0\<rparr>"]
      C10_catalog_frame[OF n, where m = "SMAMeter (\<lambda>k. 0)" and nw = "delayed_net 0 0 1 2"
        and sel = "SelList [''a'', ''b'']" and s = "\<lparr>sent = [], recvs = 0\<rparr>"
        and rd = "constant_reader 1 2" and ins = "constant_instrument 7" and reqs = "[]"
        and sel' = SelNone and s' = "\<lparr>sent = [], recvs = 0\<rparr>"]
    unfolding c s by simp
qed

section \<open>The receive loop of the synchronous TCP client\<close>

lemmas recv_loop_unfold = recv_loop.simps

declare recv_loop.simps [simp del]

lemma recv_loop_sent: "sent (snd (recv_loop nw n e data a s)) = sent s"
proof (induction nw n e data a s rule: recv_loop.induct)
  case (1 nw regs expect_bytes data attempt s)
  show ?case
    by (subst recv_loop_unfold) (auto simp: 1 split: sum.splits)
qed

text \<open>The loop makes at most ten \<^verbatim>\<open>recv\<close> calls when it starts with \<open>attempt = 1\<close>.\<close>

lemma recv_loop_recvs:
  "1 \<le> a \<and> a \<le> 10 \<Longrightarrow> recvs (snd (recv_loop nw n e data a s)) \<le> recvs s + nat (11 - a)"
proof (induction nw n e data a s rule: recv_loop.induct)
  case (1 nw regs expect_bytes data attempt s)
  show ?case
  proof (cases "py_int_is (int (length data)) expect_bytes")
    case True
    then show ?thesis by (subst recv_loop_unfold) (simp; arith)
  next
    case False
    show ?thesis
    proof (cases "nw (sent s) (recvs s)")
      case (Inl err)
      with False "1.prems" show ?thesis by (subst recv_loop_unfold) (simp; arith)
    next
      case (Inr chunk)
      show ?thesis
      proof (cases "attempt \<ge> 10")
        case True
        with False Inr "1.prems" show ?thesis by (subst recv_loop_unfold) (simp; arith)
      next
        case f: False
        have "recvs (snd (recv_loop nw regs expect_bytes (data @ chunk) (attempt + 1)
                 (s\<lparr>recvs := Suc (recvs s)\<rparr>)))
              \<le> recvs (s\<lparr>recvs := Suc (recvs s)\<rparr>) + nat (11 - (attempt + 1))"
          using "1.prems" f by (intro "1.IH"[OF False Inr f]) simp
        with False Inr f "1.prems" show ?thesis
          by (subst recv_loop_unfold) (simp; arith)
      qed
    qed
  qed
qed

text \<open>
  The loop raises only what \<^verbatim>\<open>recv\<close> raises: with a socket that never raises, the cap
  is not an exception but a list of zeros or a payload.
\<close>

lemma recv_loop_no_error:
  assumes "\<And>k. \<exists>c. nw (sent s) k = Inr c"
  shows "\<exists>d. fst (recv_loop nw n e data a s) = Inr d"
  using assms
proof (induction nw n e data a s rule: recv_loop.induct)
  case (1 nw regs expect_bytes data attempt s)
  show ?case
  proof (cases "py_int_is (int (length data)) expect_bytes")
    case True
    then show ?thesis by (subst recv_loop_unfold) simp
  next
    case False
    obtain chunk where c: "nw (sent s) (recvs s) = Inr chunk"
      using "1.prems"[of "recvs s"] by blast
    show ?thesis
    proof (cases "attempt \<ge> 10")
      case True
      with False c show ?thesis by (subst recv_loop_unfold) simp
    next
      case f: False
      have "\<exists>d. fst (recv_loop nw regs expect_bytes (data @ chunk) (attempt + 1)
                 (s\<lparr>recvs := Suc (recvs s)\<rparr>)) = Inr d"
        using "1.prems" by (intro "1.IH"[OF False c f]) simp
      with False c f show ?thesis by (subst recv_loop_unfold) simp
    qed
  qed
qed

text \<open>
  C4 (the code at the failing inputs): \<^verbatim>\<open>_perform_request\<close> must return the payload
  as soon as the accumulated data has exactly \<open>9 + 2 \<times> registerCount\<close> bytes, within ten
  attempts, and zeros only when the cap comes first. Two slips of the loop break it.

  First, the cap is tested right after the tenth \<^verbatim>\<open>recv\<close> and before the length is
  looked at again: a response of one register that arrives complete in the tenth
  \<^verbatim>\<open>recv\<close> is thrown away and two zeros are returned, while the same response in the
  ninth \<^verbatim>\<open>recv\<close> is returned.

  Second, the length is compared with \<^verbatim>\<open>is not\<close>: for 124 registers the expected
  length is 257, outside the cached ints, so the test never succeeds: the complete
  response in the first \<^verbatim>\<open>recv\<close> is ignored, the loop runs to the cap and returns 248
  zeros. For 123 registers (255 bytes) the payload is returned.
\<close>

theorem C4_perform_request_discards_complete_response:
  "modbus_message (SMAMeter (\<lambda>k. 0)) 0 40188 1 = Inr [0, 1, 0, 0, 0, 6, 126, 3, 156, 251, 0, 1]
   \<and> perform_request (delayed_net 0 9 18 52) [0, 1, 0, 0, 0, 6, 126, 3, 156, 251, 0, 1]
        \<lparr>sent = [], recvs = 0\<rparr>
       = (Inr [0, 0], \<lparr>sent = [[0, 1, 0, 0, 0, 6, 126, 3, 156, 251, 0, 1]], recvs = 10\<rparr>)
   \<and> perform_request (delayed_net 0 8 18 52) [0, 1, 0, 0, 0, 6, 126, 3, 156, 251, 0, 1]
        \<lparr>sent = [], recvs = 0\<rparr>
       = (Inr [18, 52], \<lparr>sent = [[0, 1, 0, 0, 0, 6, 126, 3, 156, 251, 0, 1]], recvs = 9\<rparr>)
   \<and> perform_request (delayed_net 0 0 18 52) [0, 1, 0, 0, 0, 6, 126, 3, 156, 251, 0, 124]
        \<lparr>sent = [], recvs = 0\<rparr>
       = (Inr (replicate 248 0),
          \<lparr>sent = [[0, 1, 0, 0, 0, 6, 126, 3, 156, 251, 0, 124]], recvs = 10\<rparr>)
   \<and> perform_request (delayed_net 0 0 18 52) [0, 1, 0, 0, 0, 6, 126, 3, 156, 251, 0, 123]
        \<lparr>sent = [], recvs = 0\<rparr>
       = (Inr (concat (replicate 123 [18, 52])),
          \<lparr>sent = [[0, 1, 0, 0, 0, 6, 126, 3, 156, 251, 0, 123]], recvs = 1\<rparr>)"
  by code_simp

section \<open>The address window of a batch\<close>

lemma py_min_first: "w \<noteq> [] \<Longrightarrow> py_min (map start w) = Inr (first_address w)"
  by (cases w) (simp_all add: py_min_def first_address_def)

lemma py_max_count:
  "w \<noteq> [] \<Longrightarrow> py_max (map (\<lambda>r. start r + length_r r) w)
                 = Inr (register_count w + first_address w)"
  by (cases w) (simp_all add: py_max_def register_count_def)

lemma fold_min_least: "\<forall>x \<in> set xs. a \<le> x \<Longrightarrow> fold min xs a = (a::int)"
proof (induction xs)
  case Nil
  then show ?case by simp
next
  case (Cons x xs)
  then have "min x a = a" by (simp add: min_absorb2)
  with Cons show ?case by simp
qed

lemma first_address_sorted:
  assumes "w \<noteq> []" and "sorted (map start w)"
  shows "first_address w = start (hd w)"
proof -
  obtain r rs where w: "w = r # rs" using assms(1) by (cases w) auto
  have "\<forall>x \<in> set (map start rs). start r \<le> x" using assms(2) by (auto simp: w)
  then have "fold min (map start rs) (start r) = start r" by (rule fold_min_least)
  then show ?thesis by (simp add: first_address_def w)
qed

lemma fold_max_last:
  "non_overlapping (r # rs) \<Longrightarrow> list_all (\<lambda>r. 0 \<le> length_r r) rs \<Longrightarrow>
     fold max (map (\<lambda>r. start r + length_r r) rs) (start r + length_r r)
       = start (last (r # rs)) + length_r (last (r # rs))"
proof (induction rs arbitrary: r)
  case Nil
  then show ?case by simp
next
  case (Cons r2 rs)
  have "max (start r + length_r r) (start r2 + length_r r2) = start r2 + length_r r2"
    using Cons.prems by simp
  moreover have "fold max (map (\<lambda>r. start r + length_r r) rs) (start r2 + length_r r2)
                   = start (last (r2 # rs)) + length_r (last (r2 # rs))"
    using Cons.prems by (intro Cons.IH) simp_all
  ultimately show ?case by simp
qed

lemma register_count_non_overlapping:
  assumes "w \<noteq> []" and "non_overlapping w" and "list_all (\<lambda>r. 0 \<le> length_r r) w"
  shows "register_count w = start (last w) + length_r (last w) - first_address w"
proof -
  obtain r rs where w: "w = r # rs" using assms(1) by (cases w) auto
  have "fold max (map (\<lambda>r. start r + length_r r) rs) (start r + length_r r)
          = start (last (r # rs)) + length_r (last (r # rs))"
    using assms(2,3) by (intro fold_max_last) (simp_all add: w)
  then show ?thesis by (simp add: register_count_def w)
qed

lemma non_overlapping_append:
  "non_overlapping (xs @ ys) \<Longrightarrow> non_overlapping xs \<and> non_overlapping ys"
proof (induction xs rule: non_overlapping.induct)
  case (1 r1 r2 rs)
  then show ?case by simp
next
  case (2 r)
  then show ?case by (cases ys) simp_all
next
  case 3
  then show ?case by simp
qed

lemma non_overlapping_concat:
  "non_overlapping (concat ws) \<Longrightarrow> list_all non_overlapping ws"
  by (induction ws) (auto dest: non_overlapping_append)

lemma sorted_concat:
  "sorted (map start (concat ws)) \<Longrightarrow> list_all (\<lambda>w. sorted (map start w)) ws"
  by (induction ws) (auto simp: sorted_append)

lemma list_all_concat: "list_all P (concat ws) \<Longrightarrow> list_all (list_all P) ws"
  by (induction ws) auto

section \<open>The requests of the serial clients\<close>

lemma RTU_read_multiple_request:
  "w \<noteq> [] \<Longrightarrow> snd (RTU_read_multiple ins w reqs) = reqs @ [window_request w]"
  by (simp add: RTU_read_multiple_def py_min_first py_max_count window_request_def Let_def
        split: sum.splits)

lemma Saia_read_multiple_request:
  "w \<noteq> [] \<Longrightarrow> snd (Saia_read_multiple ins w reqs) = reqs @ [window_request w]"
  by (simp add: Saia_read_multiple_def py_min_first py_max_count window_request_def Let_def
        split: sum.splits)

lemma read_windows_requests:
  assumes rm: "\<And>w reqs. w \<noteq> [] \<Longrightarrow> snd (rm w reqs) = reqs @ [window_request w]"
    and ne: "list_all (\<lambda>w. w \<noteq> []) ws"
  shows "\<exists>k \<le> length ws.
           snd (read_windows rm ws res reqs) = reqs @ map window_request (take k ws)
           \<and> (\<forall>d. fst (read_windows rm ws res reqs) = Inr d \<longrightarrow> k = length ws)"
  using ne
proof (induction ws arbitrary: res reqs)
  case Nil
  then show ?case by simp
next
  case (Cons w ws)
  then have w: "w \<noteq> []" and ws: "list_all (\<lambda>w. w \<noteq> []) ws" by simp_all
  obtain r reqs1 where step: "rm w reqs = (r, reqs1)" by (cases "rm w reqs") auto
  have reqs1: "reqs1 = reqs @ [window_request w]"
    using rm[OF w, of reqs] step by simp
  show ?case
  proof (cases r)
    case (Inl e)
    have "snd (read_windows rm (w # ws) res reqs) = reqs @ map window_request (take 1 (w # ws))"
      using step Inl reqs1 by simp
    moreover have "\<forall>d. fst (read_windows rm (w # ws) res reqs) \<noteq> Inr d"
      using step Inl by simp
    ultimately show ?thesis by (intro exI[of _ 1]) simp
  next
    case (Inr m)
    obtain k where k: "k \<le> length ws"
      and l: "snd (read_windows rm ws (dict_update res m) reqs1)
                = reqs1 @ map window_request (take k ws)"
      and f: "\<forall>d. fst (read_windows rm ws (dict_update res m) reqs1) = Inr d \<longrightarrow> k = length ws"
      using Cons.IH[OF ws, of "dict_update res m" reqs1] by blast
    have "snd (read_windows rm (w # ws) res reqs)
            = reqs @ map window_request (take (Suc k) (w # ws))"
      using step Inr l reqs1 by simp
    moreover have "\<forall>d. fst (read_windows rm (w # ws) res reqs) = Inr d \<longrightarrow> Suc k = length (w # ws)"
      using step Inr f by simp
    ultimately show ?thesis using k by (intro exI[of _ "Suc k"]) simp
  qed
qed

section \<open>The exchanges of the TCP clients\<close>

lemma TCP_read_range_exchange:
  "w \<noteq> [] \<Longrightarrow>
   TCP_read_range ex nulls w s =
     (case ex (first_address w) (register_count w) s of
        (Inl e, s') \<Rightarrow> (Inl e, s')
      | (Inr data, s') \<Rightarrow> (TCP_interpret_result nulls data w, s'))"
  by (simp add: TCP_read_range_def py_min_first py_max_count)

section \<open>Claims about the batching policies\<close>

lemma gap_tolerant_batch_windows:
  assumes ne: "regs \<noteq> []" and srt: "sorted (map start regs)"
    and len: "list_all (\<lambda>r. length_r r \<le> cap) regs"
  shows "gap_tolerant cap (batch_windows cap regs (start (hd regs)) []) regs"
proof -
  let ?ws = "batch_windows cap regs (start (hd regs)) []"
  have c: "concat ?ws = regs" by (simp add: concat_batch_windows)
  have p: "list_all (\<lambda>w. w \<noteq> [] \<and> fits cap w) ?ws" and cl: "closed_late cap ?ws"
    using batch_windows_initial[OF ne len] by simp_all
  have s: "list_all (\<lambda>w. sorted (map start w)) ?ws"
    using sorted_concat[of ?ws] srt c by simp
  have "list_all (\<lambda>w. w \<noteq> [] \<and> fits cap w \<and> first_address w = start (hd w)) ?ws"
    using p s by (auto simp: list_all_iff first_address_sorted)
  with c cl show ?thesis by (simp add: gap_tolerant_def)
qed

lemma spans_windows:
  assumes c: "concat ws = regs" and ne: "list_all (\<lambda>w. w \<noteq> []) ws"
    and srt: "sorted (map start regs)" and no: "non_overlapping regs"
    and len: "list_all (\<lambda>r. 0 \<le> length_r r) regs"
  shows "list_all spans ws"
proof -
  have s: "list_all (\<lambda>w. sorted (map start w)) ws"
    using sorted_concat[of ws] srt c by simp
  have n: "list_all non_overlapping ws"
    using non_overlapping_concat[of ws] no c by simp
  have l: "list_all (list_all (\<lambda>r. 0 \<le> length_r r)) ws"
    using list_all_concat[of _ ws] len c by simp
  show ?thesis
    using ne s n l
    by (auto simp: list_all_iff spans_def first_address_sorted register_count_non_overlapping)
qed

lemma lengths_124:
  "list_all (\<lambda>r. length_r r \<in> {1, 2, 4}) regs \<Longrightarrow>
     list_all (\<lambda>r. length_r r \<le> 125) regs \<and> list_all (\<lambda>r. length_r r \<le> 10) regs
     \<and> list_all (\<lambda>r. 0 \<le> length_r r) regs"
  by (auto simp: list_all_iff)

lemma example_windows:
  "batch_windows 125 [a\<lparr>start := 10, length_r := 2\<rparr>, b\<lparr>start := 14, length_r := 2\<rparr>] 10 []
     = [[a\<lparr>start := 10, length_r := 2\<rparr>, b\<lparr>start := 14, length_r := 2\<rparr>]]"
  "window_request [a\<lparr>start := 10, length_r := 2\<rparr>, b\<lparr>start := 14, length_r := 2\<rparr>]
     = Read_registers 10 6"
  by (simp_all add: window_request_def first_address_def register_count_def)

lemma example_requests:
  "snd (RTU_batch_read ins [a\<lparr>start := 10, length_r := 2\<rparr>, b\<lparr>start := 14, length_r := 2\<rparr>] reqs)
     = reqs @ [Read_registers 10 6]"
proof -
  let ?w = "[a\<lparr>start := 10, length_r := 2\<rparr>, b\<lparr>start := 14, length_r := 2\<rparr>]"
  have "RTU_batch_read ins ?w reqs = read_windows (RTU_read_multiple ins) [?w] [] reqs"
    unfolding RTU_batch_read_def
    by (subst batch_read_windows) (simp_all add: example_windows)
  moreover have "snd (RTU_read_multiple ins ?w reqs) = reqs @ [Read_registers 10 6]"
    using RTU_read_multiple_request[of ?w ins reqs] by (simp add: example_windows)
  ultimately show ?thesis
    by (cases "RTU_read_multiple ins ?w reqs") (auto split: sum.splits)
qed

text \<open>
  C2: for a non-empty register list sorted by \<open>start\<close> (word lengths 1, 2 or 4),
  \<^verbatim>\<open>_batch_read\<close> reads the windows of the gap-tolerant policy, with the cap 125 in
  \<^verbatim>\<open>ModbusRTUMeter\<close> and 10 in \<^verbatim>\<open>SaiaMeter\<close>: a register joins the current window exactly
  when \<open>start + length - windowFirstAddress \<le> cap\<close>, otherwise the window closes and a
  new one starts at that register; one request is made per window, in order, for the
  first address of the window and the span to its furthest end (to the end of its last
  register when the registers do not overlap), gaps included. The registers
  \<open>{start 10, length 2}\<close>, \<open>{start 14, length 2}\<close> give the single request \<open>(10, 6)\<close>.
\<close>

theorem C2_gap_tolerant_batching:
  assumes "regs \<noteq> []" and "sorted (map start regs)"
    and "list_all (\<lambda>r. length_r r \<in> {1, 2, 4}) regs"
  shows "RTU_batch_read ins regs reqs
           = read_windows (RTU_read_multiple ins) (RTU_windows regs) [] reqs
       \<and> Saia_batch_read ins regs reqs
           = read_windows (Saia_read_multiple ins) (Saia_windows regs) [] reqs
       \<and> gap_tolerant 125 (RTU_windows regs) regs
       \<and> gap_tolerant 10 (Saia_windows regs) regs
       \<and> (\<exists>k \<le> length (RTU_windows regs).
             snd (RTU_batch_read ins regs reqs)
               = reqs @ map window_request (take k (RTU_windows regs))
             \<and> (\<forall>d. fst (RTU_batch_read ins regs reqs) = Inr d
                    \<longrightarrow> k = length (RTU_windows regs)))
       \<and> (\<exists>k \<le> length (Saia_windows regs).
             snd (Saia_batch_read ins regs reqs)
               = reqs @ map window_request (take k (Saia_windows regs))
             \<and> (\<forall>d. fst (Saia_batch_read ins regs reqs) = Inr d
                    \<longrightarrow> k = length (Saia_windows regs)))
       \<and> (non_overlapping regs
             \<longrightarrow> list_all spans (RTU_windows regs) \<and> list_all spans (Saia_windows regs))
       \<and> RTU_windows [a\<lparr>start := 10, length_r := 2\<rparr>, b\<lparr>start := 14, length_r := 2\<rparr>]
           = [[a\<lparr>start := 10, length_r := 2\<rparr>, b\<lparr>start := 14, length_r := 2\<rparr>]]
       \<and> window_request [a\<lparr>start := 10, length_r := 2\<rparr>, b\<lparr>start := 14, length_r := 2\<rparr>]
           = Read_registers 10 6
       \<and> snd (RTU_batch_read ins
                [a\<lparr>start := 10, length_r := 2\<rparr>, b\<lparr>start := 14, length_r := 2\<rparr>] reqs)
           = reqs @ [Read_registers 10 6]"
proof -
  note l = lengths_124[OF assms(3)]
  have A: "RTU_batch_read ins regs reqs
             = read_windows (RTU_read_multiple ins) (RTU_windows regs) [] reqs"
    by (simp add: RTU_batch_read_def RTU_windows_def batch_read_windows[OF assms(1)])
  have B: "Saia_batch_read ins regs reqs
             = read_windows (Saia_read_multiple ins) (Saia_windows regs) [] reqs"
    by (simp add: Saia_batch_read_def Saia_windows_def batch_read_windows[OF assms(1)])
  have G1: "gap_tolerant 125 (RTU_windows regs) regs"
    unfolding RTU_windows_def using l by (intro gap_tolerant_batch_windows assms) simp
  have G2: "gap_tolerant 10 (Saia_windows regs) regs"
    unfolding Saia_windows_def using l by (intro gap_tolerant_batch_windows assms) simp
  have ne1: "list_all (\<lambda>w. w \<noteq> []) (RTU_windows regs)"
    using G1 by (auto simp: gap_tolerant_def list_all_iff)
  have ne2: "list_all (\<lambda>w. w \<noteq> []) (Saia_windows regs)"
    using G2 by (auto simp: gap_tolerant_def list_all_iff)
  have R1: "\<exists>k \<le> length (RTU_windows regs).
             snd (RTU_batch_read ins regs reqs)
               = reqs @ map window_request (take k (RTU_windows regs))
             \<and> (\<forall>d. fst (RTU_batch_read ins regs reqs) = Inr d
                    \<longrightarrow> k = length (RTU_windows regs))"
    unfolding A by (rule read_windows_requests[OF RTU_read_multiple_request ne1])
  have R2: "\<exists>k \<le> length (Saia_windows regs).
             snd (Saia_batch_read ins regs reqs)
               = reqs @ map window_request (take k (Saia_windows regs))
             \<and> (\<forall>d. fst (Saia_batch_read ins regs reqs) = Inr d
                    \<longrightarrow> k = length (Saia_windows regs))"
    unfolding B by (rule read_windows_requests[OF Saia_read_multiple_request ne2])
  have S: "non_overlapping regs
             \<longrightarrow> list_all spans (RTU_windows regs) \<and> list_all spans (Saia_windows regs)"
  proof
    assume no: "non_overlapping regs"
    have c1: "concat (RTU_windows regs) = regs" using G1 by (simp add: gap_tolerant_def)
    have c2: "concat (Saia_windows regs) = regs" using G2 by (simp add: gap_tolerant_def)
    show "list_all spans (RTU_windows regs) \<and> list_all spans (Saia_windows regs)"
      using spans_windows[OF c1 ne1 assms(2) no] spans_windows[OF c2 ne2 assms(2) no] l
      by simp
  qed
  have E: "RTU_windows [a\<lparr>start := 10, length_r := 2\<rparr>, b\<lparr>start := 14, length_r := 2\<rparr>]
           = [[a\<lparr>start := 10, length_r := 2\<rparr>, b\<lparr>start := 14, length_r := 2\<rparr>]]"
    using example_windows(1)[of a b] by (simp add: RTU_windows_def)
  show ?thesis
    using A B G1 G2 R1 R2 S E example_windows(2)[of a b] example_requests[of ins a b reqs]
    by (intro conjI)
qed

lemma ABB_B21_hyps:
  "ABBMeter_B21_REGS \<noteq> []"
  "sorted (map start ABBMeter_B21_REGS)"
  "list_all (\<lambda>r. length_r r \<in> {1, 2, 4}) ABBMeter_B21_REGS"
  "non_overlapping ABBMeter_B21_REGS"
  by (simp_all add: ABBMeter_B21_REGS_def reg_def)

lemma ABB_B21_windows:
  "RTU_windows ABBMeter_B21_REGS = [take 11 ABBMeter_B21_REGS, drop 11 ABBMeter_B21_REGS]"
  by (simp add: RTU_windows_def ABBMeter_B21_REGS_def reg_def)

lemma ABB_B21_requests:
  "map window_request [take 11 ABBMeter_B21_REGS, drop 11 ABBMeter_B21_REGS]
     = [Read_registers 20480 56, Read_registers 23296 63]"
  by (simp add: window_request_def first_address_def register_count_def
        ABBMeter_B21_REGS_def reg_def)

theorem C2_gap_tolerant_batching_witness:
  "ABBMeter_B21_REGS \<noteq> [] \<and> sorted (map start ABBMeter_B21_REGS)
   \<and> list_all (\<lambda>r. length_r r \<in> {1, 2, 4}) ABBMeter_B21_REGS
   \<and> non_overlapping ABBMeter_B21_REGS
   \<and> gap_tolerant 125 [take 11 ABBMeter_B21_REGS, drop 11 ABBMeter_B21_REGS] ABBMeter_B21_REGS
   \<and> list_all spans [take 11 ABBMeter_B21_REGS, drop 11 ABBMeter_B21_REGS]
   \<and> (\<exists>k \<le> 2. snd (RTU_batch_read (constant_instrument 7) ABBMeter_B21_REGS [])
         = take k [Read_registers 20480 56, Read_registers 23296 63])"
proof -
  note t = C2_gap_tolerant_batching[OF ABB_B21_hyps(1,2,3),
      where ins = "constant_instrument 7" and reqs = "[]"]
  have g: "gap_tolerant 125 (RTU_windows ABBMeter_B21_REGS) ABBMeter_B21_REGS"
    and s: "list_all spans (RTU_windows ABBMeter_B21_REGS)"
    using t ABB_B21_hyps(4) by simp_all
  obtain k where k: "k \<le> length (RTU_windows ABBMeter_B21_REGS)"
    and l: "snd (RTU_batch_read (constant_instrument 7) ABBMeter_B21_REGS [])
              = [] @ map window_request (take k (RTU_windows ABBMeter_B21_REGS))"
    using t by blast
  have "snd (RTU_batch_read (constant_instrument 7) ABBMeter_B21_REGS [])
          = take k [Read_registers 20480 56, Read_registers 23296 63]"
    using l unfolding ABB_B21_windows by (simp only: take_map[symmetric] ABB_B21_requests) simp
  moreover have "k \<le> 2" using k unfolding ABB_B21_windows by simp
  ultimately have "\<exists>k \<le> 2. snd (RTU_batch_read (constant_instrument 7) ABBMeter_B21_REGS [])
         = take k [Read_registers 20480 56, Read_registers 23296 63]" by blast
  with g s ABB_B21_hyps show ?thesis unfolding ABB_B21_windows by simp
qed

lemma example_ranges:
  "split_ranges [a\<lparr>start := 10, length_r := 1\<rparr>, b\<lparr>start := 11, length_r := 1\<rparr>,
                 c\<lparr>start := 50, length_r := 1\<rparr>]
     = Inr [[a\<lparr>start := 10, length_r := 1\<rparr>, b\<lparr>start := 11, length_r := 1\<rparr>],
            [c\<lparr>start := 50, length_r := 1\<rparr>]]"
  "first_address [a\<lparr>start := 10, length_r := 1\<rparr>, b\<lparr>start := 11, length_r := 1\<rparr>] = 10"
  "register_count [a\<lparr>start := 10, length_r := 1\<rparr>, b\<lparr>start := 11, length_r := 1\<rparr>] = 2"
  "first_address [c\<lparr>start := 50, length_r := 1\<rparr>] = 50"
  "register_count [c\<lparr>start := 50, length_r := 1\<rparr>] = 1"
  by (simp_all add: split_ranges_def first_address_def register_count_def)

text \<open>
  C3: for a non-empty register list sorted by \<open>start\<close>, \<^verbatim>\<open>_split_ranges\<close> yields the
  windows of the contiguity-strict policy: a register stays in the window of the
  register before it exactly when \<open>start - previousEnd \<le> 1\<close>, where \<open>previousEnd\<close> is
  \<open>start + length\<close> of that register; a larger gap starts a new window, and no size
  closes one (a list without such a gap is one window, however long).
  \<^verbatim>\<open>_read_multiple\<close> makes one exchange per window, for its first address and its
  span. The registers at 10, 11 and 50, of length 1, give the windows \<open>(10, 2)\<close> and
  \<open>(50, 1)\<close>.
\<close>

theorem C3_contiguity_strict_splitting:
  assumes "regs \<noteq> []" and "sorted (map start regs)"
  shows "(\<exists>ws. split_ranges regs = Inr ws \<and> contiguity_strict ws regs
            \<and> list_all (\<lambda>w. first_address w = start (hd w)) ws
            \<and> TCP_read_sorted ex nulls regs s = read_windows (TCP_read_range ex nulls) ws [] s
            \<and> list_all (\<lambda>w. TCP_read_range ex nulls w s1 =
                 (case ex (first_address w) (register_count w) s1 of
                    (Inl e, s2) \<Rightarrow> (Inl e, s2)
                  | (Inr data, s2) \<Rightarrow> (TCP_interpret_result nulls data w, s2))) ws)
       \<and> (adjacent regs \<longrightarrow> split_ranges regs = Inr [regs])
       \<and> split_ranges [a\<lparr>start := 10, length_r := 1\<rparr>, b\<lparr>start := 11, length_r := 1\<rparr>,
                        c\<lparr>start := 50, length_r := 1\<rparr>]
           = Inr [[a\<lparr>start := 10, length_r := 1\<rparr>, b\<lparr>start := 11, length_r := 1\<rparr>],
                  [c\<lparr>start := 50, length_r := 1\<rparr>]]
       \<and> first_address [a\<lparr>start := 10, length_r := 1\<rparr>, b\<lparr>start := 11, length_r := 1\<rparr>] = 10
       \<and> register_count [a\<lparr>start := 10, length_r := 1\<rparr>, b\<lparr>start := 11, length_r := 1\<rparr>] = 2
       \<and> first_address [c\<lparr>start := 50, length_r := 1\<rparr>] = 50
       \<and> register_count [c\<lparr>start := 50, length_r := 1\<rparr>] = 1"
proof -
  obtain ws where sp: "split_ranges regs = Inr ws" and c: "concat ws = regs"
    and p: "list_all (\<lambda>w. w \<noteq> [] \<and> adjacent w) ws" and g: "gapped ws"
    using split_ranges_props[OF assms(1)] by blast
  have cs: "contiguity_strict ws regs"
    using c p g by (simp add: contiguity_strict_def)
  have s: "list_all (\<lambda>w. sorted (map start w)) ws"
    using sorted_concat[of ws] assms(2) c by simp
  have fa: "list_all (\<lambda>w. first_address w = start (hd w)) ws"
    using p s by (auto simp: list_all_iff first_address_sorted)
  have rd: "TCP_read_sorted ex nulls regs s = read_windows (TCP_read_range ex nulls) ws [] s"
    by (simp add: TCP_read_sorted_def sp)
  have xs: "list_all (\<lambda>w. TCP_read_range ex nulls w s1 =
                 (case ex (first_address w) (register_count w) s1 of
                    (Inl e, s2) \<Rightarrow> (Inl e, s2)
                  | (Inr data, s2) \<Rightarrow> (TCP_interpret_result nulls data w, s2))) ws"
    using p by (auto simp: list_all_iff TCP_read_range_exchange)
  have first: "\<exists>ws. split_ranges regs = Inr ws \<and> contiguity_strict ws regs
            \<and> list_all (\<lambda>w. first_address w = start (hd w)) ws
            \<and> TCP_read_sorted ex nulls regs s = read_windows (TCP_read_range ex nulls) ws [] s
            \<and> list_all (\<lambda>w. TCP_read_range ex nulls w s1 =
                 (case ex (first_address w) (register_count w) s1 of
                    (Inl e, s2) \<Rightarrow> (Inl e, s2)
                  | (Inr data, s2) \<Rightarrow> (TCP_interpret_result nulls data w, s2))) ws"
    using sp cs fa rd xs by blast
  have adj: "adjacent regs \<longrightarrow> split_ranges regs = Inr [regs]"
    using split_ranges_adjacent[OF assms(1)] by blast
  show ?thesis
    using first adj example_ranges(1)[of a b c] example_ranges(2,3)[of a b]
      example_ranges(4,5)[of c]
    by (intro conjI)
qed

lemma SMA_hyps:
  "SMAMeter_REGS \<noteq> []" "sorted (map start SMAMeter_REGS)"
  "take 4 SMAMeter_REGS \<noteq> []" "sorted (map start (take 4 SMAMeter_REGS))"
  "adjacent (take 4 SMAMeter_REGS)"
  by (simp_all add: SMAMeter_REGS_def reg_def)

lemma SMA_ranges:
  "split_ranges SMAMeter_REGS
     = Inr [take 16 SMAMeter_REGS, take 2 (drop 16 SMAMeter_REGS), drop 18 SMAMeter_REGS]"
  by (simp add: split_ranges_def SMAMeter_REGS_def reg_def)

theorem C3_contiguity_strict_splitting_witness:
  "SMAMeter_REGS \<noteq> [] \<and> sorted (map start SMAMeter_REGS)
   \<and> split_ranges SMAMeter_REGS
       = Inr [take 16 SMAMeter_REGS, take 2 (drop 16 SMAMeter_REGS), drop 18 SMAMeter_REGS]
   \<and> contiguity_strict
        [take 16 SMAMeter_REGS, take 2 (drop 16 SMAMeter_REGS), drop 18 SMAMeter_REGS]
        SMAMeter_REGS
   \<and> take 4 SMAMeter_REGS \<noteq> [] \<and> sorted (map start (take 4 SMAMeter_REGS))
   \<and> adjacent (take 4 SMAMeter_REGS)
   \<and> split_ranges (take 4 SMAMeter_REGS) = Inr [take 4 SMAMeter_REGS]"
proof -
  have "\<exists>ws. split_ranges SMAMeter_REGS = Inr ws \<and> contiguity_strict ws SMAMeter_REGS"
    using C3_contiguity_strict_splitting[OF SMA_hyps(1,2)] by blast
  then have cs: "contiguity_strict
        [take 16 SMAMeter_REGS, take 2 (drop 16 SMAMeter_REGS), drop 18 SMAMeter_REGS]
        SMAMeter_REGS"
    unfolding SMA_ranges by simp
  have "split_ranges (take 4 SMAMeter_REGS) = Inr [take 4 SMAMeter_REGS]"
    using C3_contiguity_strict_splitting[OF SMA_hyps(3,4)] SMA_hyps(5) by blast
  with cs SMA_hyps SMA_ranges show ?thesis by simp
qed

section \<open>The keys of the result dicts\<close>

lemma update_fresh: "k \<notin> fst ` set al \<Longrightarrow> AList.update k v al = al @ [(k, v)]"
  by (induction al) auto

lemma dict_update_fresh:
  "distinct (map fst other) \<Longrightarrow> fst ` set other \<inter> fst ` set d = {} \<Longrightarrow>
     dict_update d other = d @ other"
proof (induction other arbitrary: d)
  case Nil
  then show ?case by (simp add: dict_update_def)
next
  case (Cons kv other)
  have fresh: "fst kv \<notin> fst ` set d" using Cons.prems(2) by auto
  have "dict_update (d @ [kv]) other = (d @ [kv]) @ other"
    using Cons.prems by (intro Cons.IH) auto
  then show ?case
    using update_fresh[OF fresh, of "snd kv"] by (simp add: dict_update_def)
qed

lemma RTU_interpret_loop_keys:
  "distinct (map name regs) \<Longrightarrow> name ` set regs \<inter> fst ` set res = {} \<Longrightarrow>
   RTU_interpret_loop data f regs res = Inr m \<Longrightarrow>
     \<exists>m'. m = res @ m' \<and> map fst m' = map name regs"
proof (induction regs arbitrary: res)
  case Nil
  then show ?case by simp
next
  case (Cons r regs)
  obtain v where v: "RTU_convert_value (py_slice data (start r - f) (start r - f + length_r r))
                       (signed r) (decimals r) (is_float r) = Inr v"
    and rest: "RTU_interpret_loop data f regs (AList.update (name r) v res) = Inr m"
    using Cons.prems(3) by (auto simp: Let_def split: sum.splits)
  have fresh: "name r \<notin> fst ` set res" using Cons.prems(2) by auto
  have upd: "AList.update (name r) v res = res @ [(name r, v)]"
    by (rule update_fresh[OF fresh])
  have "\<exists>m'. m = (res @ [(name r, v)]) @ m' \<and> map fst m' = map name regs"
    using Cons.prems(1,2) rest unfolding upd by (intro Cons.IH) auto
  then obtain m' where "m = res @ ((name r, v) # m')" and "map fst m' = map name regs" by auto
  then show ?case by (intro exI[of _ "(name r, v) # m'"]) simp
qed

lemma Saia_interpret_loop_keys:
  "distinct (map name regs) \<Longrightarrow> name ` set regs \<inter> fst ` set res = {} \<Longrightarrow>
   Saia_interpret_loop data f regs res = Inr m \<Longrightarrow>
     \<exists>m'. m = res @ m' \<and> map fst m' = map name regs"
proof (induction regs arbitrary: res)
  case Nil
  then show ?case by simp
next
  case (Cons r regs)
  obtain v where v: "Saia_convert_value (py_slice data (start r - f) (start r - f + length_r r))
                       (signed r) (decimals r) = Inr v"
    and rest: "Saia_interpret_loop data f regs (AList.update (name r) v res) = Inr m"
    using Cons.prems(3) by (auto simp: Let_def split: sum.splits)
  have fresh: "name r \<notin> fst ` set res" using Cons.prems(2) by auto
  have upd: "AList.update (name r) v res = res @ [(name r, v)]"
    by (rule update_fresh[OF fresh])
  have "\<exists>m'. m = (res @ [(name r, v)]) @ m' \<and> map fst m' = map name regs"
    using Cons.prems(1,2) rest unfolding upd by (intro Cons.IH) auto
  then obtain m' where "m = res @ ((name r, v) # m')" and "map fst m' = map name regs" by auto
  then show ?case by (intro exI[of _ "(name r, v) # m'"]) simp
qed

lemma TCP_interpret_loop_keys:
  "distinct (map name regs) \<Longrightarrow> name ` set regs \<inter> fst ` set res = {} \<Longrightarrow>
   TCP_interpret_loop nulls data f regs res = Inr m \<Longrightarrow>
     \<exists>m'. m = res @ m' \<and> map fst m' = map name regs"
proof (induction regs arbitrary: res)
  case Nil
  then show ?case by simp
next
  case (Cons r regs)
  obtain v where rest: "TCP_interpret_loop nulls data f regs (AList.update (name r) v res) = Inr m"
    using Cons.prems(3) by (auto simp: Let_def split: sum.splits)
  have fresh: "name r \<notin> fst ` set res" using Cons.prems(2) by auto
  have upd: "AList.update (name r) v res = res @ [(name r, v)]"
    by (rule update_fresh[OF fresh])
  have "\<exists>m'. m = (res @ [(name r, v)]) @ m' \<and> map fst m' = map name regs"
    using Cons.prems(1,2) rest unfolding upd by (intro Cons.IH) auto
  then obtain m' where "m = res @ ((name r, v) # m')" and "map fst m' = map name regs" by auto
  then show ?case by (intro exI[of _ "(name r, v) # m'"]) simp
qed

lemma RTU_read_multiple_keys:
  assumes "distinct (map name w)" and "RTU_read_multiple ins w reqs = (Inr m, reqs')"
  shows "map fst m = map name w"
proof -
  obtain f vals where "RTU_interpret_loop vals f w [] = Inr m"
    using assms(2)
    by (auto simp: RTU_read_multiple_def RTU_interpret_result_def Let_def split: sum.splits)
  from RTU_interpret_loop_keys[OF assms(1) _ this] show ?thesis by auto
qed

lemma Saia_read_multiple_keys:
  assumes "distinct (map name w)" and "Saia_read_multiple ins w reqs = (Inr m, reqs')"
  shows "map fst m = map name w"
proof -
  obtain f vals where "Saia_interpret_loop vals f w [] = Inr m"
    using assms(2)
    by (auto simp: Saia_read_multiple_def Saia_interpret_result_def Let_def split: sum.splits)
  from Saia_interpret_loop_keys[OF assms(1) _ this] show ?thesis by auto
qed

lemma TCP_read_range_keys:
  assumes "distinct (map name w)" and "TCP_read_range ex nulls w s = (Inr m, s')"
  shows "map fst m = map name w"
proof -
  obtain f data where "TCP_interpret_loop nulls data f w [] = Inr m"
    using assms(2)
    by (auto simp: TCP_read_range_def TCP_interpret_result_def split: sum.splits prod.splits)
  from TCP_interpret_loop_keys[OF assms(1) _ this] show ?thesis by auto
qed

lemma read_windows_keys:
  assumes rm: "\<And>w io m io'. distinct (map name w) \<Longrightarrow> rm w io = (Inr m, io')
                 \<Longrightarrow> map fst m = map name w"
  shows "distinct (map fst res @ map name (concat ws)) \<Longrightarrow>
         read_windows rm ws res io = (Inr d, io') \<Longrightarrow>
           map fst d = map fst res @ map name (concat ws)"
proof (induction ws arbitrary: res io)
  case Nil
  then show ?case by simp
next
  case (Cons w ws)
  obtain m io1 where step: "rm w io = (Inr m, io1)"
    and rest: "read_windows rm ws (dict_update res m) io1 = (Inr d, io')"
    using Cons.prems(2) by (auto split: prod.splits sum.splits)
  have dw: "distinct (map name w)" using Cons.prems(1) by simp
  have km: "map fst m = map name w" by (rule rm[OF dw step])
  have dm: "distinct (map fst m)" using km dw by simp
  have "fst ` set m = name ` set w"
    using km by (metis image_set)
  then have disj: "fst ` set m \<inter> fst ` set res = {}"
    using Cons.prems(1) by auto
  have du: "dict_update res m = res @ m" by (rule dict_update_fresh[OF dm disj])
  have "map fst d = map fst (res @ m) @ map name (concat ws)"
    using Cons.prems(1) rest unfolding du by (intro Cons.IH) (simp_all add: km)
  then show ?case by (simp add: km)
qed

section \<open>Windows as a partition\<close>

lemma concat_disjoint:
  "distinct (concat xss) \<Longrightarrow> i < j \<Longrightarrow> j < length xss \<Longrightarrow> set (xss ! i) \<inter> set (xss ! j) = {}"
proof (induction xss arbitrary: i j)
  case Nil
  then show ?case by simp
next
  case (Cons xs xss)
  show ?case
  proof (cases i)
    case 0
    then obtain j' where j: "j = Suc j'" and j': "j' < length xss"
      using Cons.prems by (cases j) auto
    have "set (xss ! j') \<subseteq> set (concat xss)" using nth_mem[OF j'] by auto
    moreover have "set xs \<inter> set (concat xss) = {}" using Cons.prems(1) by simp
    ultimately show ?thesis using 0 j by auto
  next
    case (Suc i')
    then obtain j' where j: "j = Suc j'" and "i' < j'" and "j' < length xss"
      using Cons.prems by (cases j) auto
    then show ?thesis using Cons.IH[of i' j'] Cons.prems(1) Suc by simp
  qed
qed

lemma partition_names:
  assumes c: "concat ws = regs" and d: "distinct (map name regs)"
  shows "(\<forall>i j. i < j \<and> j < length ws \<longrightarrow> name ` set (ws ! i) \<inter> name ` set (ws ! j) = {})
       \<and> (\<forall>r \<in> set regs. \<exists>!i. i < length ws \<and> r \<in> set (ws ! i))"
proof -
  have dn: "distinct (concat (map (map name) ws))"
    using d unfolding c[symmetric] by (simp add: map_concat)
  have disj: "name ` set (ws ! i) \<inter> name ` set (ws ! j) = {}" if "i < j" "j < length ws" for i j
    using concat_disjoint[OF dn, of i j] that by simp
  have disj': "name ` set (ws ! i) \<inter> name ` set (ws ! j) = {}"
    if "i \<noteq> j" "i < length ws" "j < length ws" for i j
  proof (cases "i < j")
    case True
    then show ?thesis using disj that by simp
  next
    case False
    then have "j < i" using that by simp
    then show ?thesis using disj[of j i] that by auto
  qed
  have ex1: "\<exists>!i. i < length ws \<and> r \<in> set (ws ! i)" if r: "r \<in> set regs" for r
  proof -
    from r c have "r \<in> set (concat ws)" by simp
    then obtain w where "w \<in> set ws" "r \<in> set w" by auto
    then obtain i where i: "i < length ws" "r \<in> set (ws ! i)"
      by (auto simp: in_set_conv_nth)
    show ?thesis
    proof (rule ex1I[of _ i])
      show "i < length ws \<and> r \<in> set (ws ! i)" using i by simp
    next
      fix j assume j: "j < length ws \<and> r \<in> set (ws ! j)"
      show "j = i"
      proof (rule ccontr)
        assume "j \<noteq> i"
        then have "name ` set (ws ! j) \<inter> name ` set (ws ! i) = {}"
          using disj'[of j i] i j by simp
        moreover have "name r \<in> name ` set (ws ! j)" "name r \<in> name ` set (ws ! i)"
          using i j by auto
        ultimately show False by auto
      qed
    qed
  qed
  show ?thesis using disj ex1 by blast
qed

section \<open>Claim about the partition into windows\<close>

lemma windows_concat:
  assumes "regs \<noteq> []"
    and "ws = RTU_windows regs \<or> ws = Saia_windows regs \<or> split_ranges regs = Inr ws"
  shows "concat ws = regs"
proof -
  from split_ranges_props[OF assms(1)] obtain ws' where
    "split_ranges regs = Inr ws'" "concat ws' = regs" by blast
  then have "split_ranges regs = Inr ws \<Longrightarrow> concat ws = regs" by simp
  then show ?thesis
    using assms(2) by (auto simp: RTU_windows_def Saia_windows_def concat_batch_windows)
qed

lemma distinct_window:
  "concat ws = regs \<Longrightarrow> distinct (map name regs) \<Longrightarrow> w \<in> set ws \<Longrightarrow> distinct (map name w)"
proof -
  assume c: "concat ws = regs" and d: "distinct (map name regs)" and w: "w \<in> set ws"
  have "distinct (concat (map (map name) ws))"
    using d unfolding c[symmetric] by (simp add: map_concat)
  then show ?thesis using w by (auto simp: distinct_concat_iff)
qed

text \<open>
  C9: for a non-empty register list with unique names (the invariant of a catalog),
  the windows of both policies (the batches of \<^verbatim>\<open>_batch_read\<close> with either cap, the
  ranges of \<^verbatim>\<open>_split_ranges\<close>) are the input list cut into consecutive pieces: their
  concatenation is the input, every register is in exactly one window, the name sets
  of two windows are disjoint, the decode map of a window has exactly the names of
  the window as keys, and the merged result of a successful read has exactly the input
  names as keys, each once, in input order.
\<close>

theorem C9_window_partition:
  assumes "regs \<noteq> []" and "distinct (map name regs)"
    and "ws = RTU_windows regs \<or> ws = Saia_windows regs \<or> split_ranges regs = Inr ws"
  shows "concat ws = regs
       \<and> (\<forall>r \<in> set regs. \<exists>!i. i < length ws \<and> r \<in> set (ws ! i))
       \<and> (\<forall>i j. i < j \<and> j < length ws \<longrightarrow> name ` set (ws ! i) \<inter> name ` set (ws ! j) = {})
       \<and> (\<forall>w \<in> set ws. \<forall>m reqs reqs'.
             (RTU_read_multiple ins w reqs = (Inr m, reqs') \<longrightarrow> map fst m = map name w)
             \<and> (Saia_read_multiple ins w reqs = (Inr m, reqs') \<longrightarrow> map fst m = map name w))
       \<and> (\<forall>w \<in> set ws. \<forall>m s s'.
             TCP_read_range ex nulls w s = (Inr m, s') \<longrightarrow> map fst m = map name w)
       \<and> (\<forall>d reqs reqs'. RTU_batch_read ins regs reqs = (Inr d, reqs')
             \<longrightarrow> map fst d = map name regs \<and> fst ` set d = name ` set regs)
       \<and> (\<forall>d reqs reqs'. Saia_batch_read ins regs reqs = (Inr d, reqs')
             \<longrightarrow> map fst d = map name regs \<and> fst ` set d = name ` set regs)
       \<and> (\<forall>d s s'. TCP_read_sorted ex nulls regs s = (Inr d, s')
             \<longrightarrow> map fst d = map name regs \<and> fst ` set d = name ` set regs)"
proof -
  have c: "concat ws = regs" by (rule windows_concat[OF assms(1,3)])
  note pn = partition_names[OF c assms(2)]
  have dw: "\<And>w. w \<in> set ws \<Longrightarrow> distinct (map name w)"
    by (rule distinct_window[OF c assms(2)])
  have k1: "\<forall>w \<in> set ws. \<forall>m reqs reqs'.
             (RTU_read_multiple ins w reqs = (Inr m, reqs') \<longrightarrow> map fst m = map name w)
             \<and> (Saia_read_multiple ins w reqs = (Inr m, reqs') \<longrightarrow> map fst m = map name w)"
  proof (intro ballI allI conjI impI)
    fix w m reqs reqs' assume "w \<in> set ws" and "RTU_read_multiple ins w reqs = (Inr m, reqs')"
    then show "map fst m = map name w" using dw RTU_read_multiple_keys by blast
  next
    fix w m reqs reqs' assume "w \<in> set ws" and "Saia_read_multiple ins w reqs = (Inr m, reqs')"
    then show "map fst m = map name w" using dw Saia_read_multiple_keys by blast
  qed
  have k2: "\<forall>w \<in> set ws. \<forall>m s s'.
             TCP_read_range ex nulls w s = (Inr m, s') \<longrightarrow> map fst m = map name w"
  proof (intro ballI allI impI)
    fix w m s s' assume "w \<in> set ws" and "TCP_read_range ex nulls w s = (Inr m, s')"
    then show "map fst m = map name w" using dw TCP_read_range_keys by blast
  qed
  have set_of: "\<And>d. map fst d = map name regs \<Longrightarrow> fst ` set d = name ` set regs"
    by (metis image_set)
  have b1: "map fst d = map name regs \<and> fst ` set d = name ` set regs"
    if "RTU_batch_read ins regs reqs = (Inr d, reqs')" for d reqs reqs'
  proof -
    have r: "read_windows (RTU_read_multiple ins) (RTU_windows regs) [] reqs = (Inr d, reqs')"
      using that by (simp add: RTU_batch_read_def RTU_windows_def batch_read_windows[OF assms(1)])
    have dd: "distinct (map fst ([] :: results) @ map name (concat (RTU_windows regs)))"
      using assms(2) by (simp add: RTU_windows_def concat_batch_windows)
    have "map fst d = map fst ([] :: results) @ map name (concat (RTU_windows regs))"
      by (rule read_windows_keys[OF RTU_read_multiple_keys dd r])
    then have "map fst d = map name regs" by (simp add: RTU_windows_def concat_batch_windows)
    then show ?thesis using set_of by simp
  qed
  have b2: "map fst d = map name regs \<and> fst ` set d = name ` set regs"
    if "Saia_batch_read ins regs reqs = (Inr d, reqs')" for d reqs reqs'
  proof -
    have r: "read_windows (Saia_read_multiple ins) (Saia_windows regs) [] reqs = (Inr d, reqs')"
      using that
      by (simp add: Saia_batch_read_def Saia_windows_def batch_read_windows[OF assms(1)])
    have dd: "distinct (map fst ([] :: results) @ map name (concat (Saia_windows regs)))"
      using assms(2) by (simp add: Saia_windows_def concat_batch_windows)
    have "map fst d = map fst ([] :: results) @ map name (concat (Saia_windows regs))"
      by (rule read_windows_keys[OF Saia_read_multiple_keys dd r])
    then have "map fst d = map name regs" by (simp add: Saia_windows_def concat_batch_windows)
    then show ?thesis using set_of by simp
  qed
  have b3: "map fst d = map name regs \<and> fst ` set d = name ` set regs"
    if "TCP_read_sorted ex nulls regs s = (Inr d, s')" for d s s'
  proof -
    from split_ranges_props[OF assms(1)] obtain rs where
      sp: "split_ranges regs = Inr rs" and cr: "concat rs = regs" by blast
    have r: "read_windows (TCP_read_range ex nulls) rs [] s = (Inr d, s')"
      using that by (simp add: TCP_read_sorted_def sp)
    have dd: "distinct (map fst ([] :: results) @ map name (concat rs))"
      using assms(2) cr by simp
    have "map fst d = map fst ([] :: results) @ map name (concat rs)"
      by (rule read_windows_keys[OF TCP_read_range_keys dd r])
    then have "map fst d = map name regs" by (simp add: cr)
    then show ?thesis using set_of by simp
  qed
  have B1: "\<forall>d reqs reqs'. RTU_batch_read ins regs reqs = (Inr d, reqs')
             \<longrightarrow> map fst d = map name regs \<and> fst ` set d = name ` set regs"
    by (intro allI impI) (rule b1)
  have B2: "\<forall>d reqs reqs'. Saia_batch_read ins regs reqs = (Inr d, reqs')
             \<longrightarrow> map fst d = map name regs \<and> fst ` set d = name ` set regs"
    by (intro allI impI) (rule b2)
  have B3: "\<forall>d s s'. TCP_read_sorted ex nulls regs s = (Inr d, s')
             \<longrightarrow> map fst d = map name regs \<and> fst ` set d = name ` set regs"
    by (intro allI impI) (rule b3)
  from pn have p1: "\<forall>r \<in> set regs. \<exists>!i. i < length ws \<and> r \<in> set (ws ! i)"
    and p2: "\<forall>i j. i < j \<and> j < length ws \<longrightarrow> name ` set (ws ! i) \<inter> name ` set (ws ! j) = {}"
    by simp_all
  show ?thesis
    using c p1 p2 k1 k2 B1 B2 B3 by (intro conjI)
qed

lemma ABB_B21_distinct: "distinct (map name ABBMeter_B21_REGS)"
  by code_simp

lemma SMA_distinct: "distinct (map name SMAMeter_REGS)"
  by code_simp

lemma ABB_B21_read_succeeds:
  "\<not> isl (fst (RTU_batch_read (constant_instrument 7) ABBMeter_B21_REGS []))"
  by code_simp

lemma SMA_read_succeeds:
  "\<not> isl (fst (TCP_read_sorted (TCP_exchange (SMAMeter (\<lambda>k. 0)) (prompt_net 1 2))
                 SMAMeter_NULLS SMAMeter_REGS \<lparr>sent = [], recvs = 0\<rparr>))"
  by code_simp

theorem C9_window_partition_witness:
  "ABBMeter_B21_REGS \<noteq> [] \<and> distinct (map name ABBMeter_B21_REGS)
   \<and> concat (RTU_windows ABBMeter_B21_REGS) = ABBMeter_B21_REGS
   \<and> (\<exists>d reqs'. RTU_batch_read (constant_instrument 7) ABBMeter_B21_REGS [] = (Inr d, reqs')
          \<and> map fst d = map name ABBMeter_B21_REGS)
   \<and> SMAMeter_REGS \<noteq> [] \<and> distinct (map name SMAMeter_REGS)
   \<and> split_ranges SMAMeter_REGS
        = Inr [take 16 SMAMeter_REGS, take 2 (drop 16 SMAMeter_REGS), drop 18 SMAMeter_REGS]
   \<and> concat [take 16 SMAMeter_REGS, take 2 (drop 16 SMAMeter_REGS), drop 18 SMAMeter_REGS]
        = SMAMeter_REGS
   \<and> (\<exists>d s'. TCP_read_sorted (TCP_exchange (SMAMeter (\<lambda>k. 0)) (prompt_net 1 2)) SMAMeter_NULLS
                 SMAMeter_REGS \<lparr>sent = [], recvs = 0\<rparr> = (Inr d, s')
          \<and> map fst d = map name SMAMeter_REGS)"
proof -
  note t1 = C9_window_partition[OF ABB_B21_hyps(1) ABB_B21_distinct,
      where ws = "RTU_windows ABBMeter_B21_REGS" and ins = "constant_instrument 7"]
  note t2 = C9_window_partition[OF SMA_hyps(1) SMA_distinct,
      where ws = "[take 16 SMAMeter_REGS, take 2 (drop 16 SMAMeter_REGS), drop 18 SMAMeter_REGS]"
        and ex = "TCP_exchange (SMAMeter (\<lambda>k. 0)) (prompt_net 1 2)" and nulls = SMAMeter_NULLS]
  obtain d reqs' where r: "RTU_batch_read (constant_instrument 7) ABBMeter_B21_REGS [] = (Inr d, reqs')"
    using ABB_B21_read_succeeds
    by (cases "RTU_batch_read (constant_instrument 7) ABBMeter_B21_REGS []";
        cases "fst (RTU_batch_read (constant_instrument 7) ABBMeter_B21_REGS [])") auto
  have a: "concat (RTU_windows ABBMeter_B21_REGS) = ABBMeter_B21_REGS"
    and b: "map fst d = map name ABBMeter_B21_REGS"
    using t1 r by blast+
  obtain d2 s2 where r2: "TCP_read_sorted (TCP_exchange (SMAMeter (\<lambda>k. 0)) (prompt_net 1 2))
        SMAMeter_NULLS SMAMeter_REGS \<lparr>sent = [], recvs = 0\<rparr> = (Inr d2, s2)"
    using SMA_read_succeeds
    by (cases "TCP_read_sorted (TCP_exchange (SMAMeter (\<lambda>k. 0)) (prompt_net 1 2))
                 SMAMeter_NULLS SMAMeter_REGS \<lparr>sent = [], recvs = 0\<rparr>";
        cases "fst (TCP_read_sorted (TCP_exchange (SMAMeter (\<lambda>k. 0)) (prompt_net 1 2))
                 SMAMeter_NULLS SMAMeter_REGS \<lparr>sent = [], recvs = 0\<rparr>)") auto
  have a2: "concat [take 16 SMAMeter_REGS, take 2 (drop 16 SMAMeter_REGS), drop 18 SMAMeter_REGS]
              = SMAMeter_REGS"
    and b2: "map fst d2 = map name SMAMeter_REGS"
    using t2 r2 SMA_ranges by blast+
  show ?thesis
    using ABB_B21_hyps(1) ABB_B21_distinct a r b SMA_hyps(1) SMA_distinct SMA_ranges a2 r2 b2
    by blast
qed

end
